theory Spec2Isabelle
  imports Complex_Main "HOL-Library.AList" "HOL-Library.Log_Nat"
begin

section \<open>The trace: rows of the parsed log\<close>

text \<open>
  \<^verbatim>\<open>parse_log\<close> turns every line that matches
  \<^verbatim>\<open>(\d+),(START|COMPLETE|RELEASE|MISS|WDT_PET|INFO),([A-Za-z0-9_]+),?([A-Za-z0-9_]*)\<close>
  into one row \<^verbatim>\<open>(int(t), evt, task, extra)\<close> of a DataFrame with the columns
  \<^verbatim>\<open>time_ms, event, task, extra\<close>. The six alternatives of the regular expression are the
  only values of the \<^verbatim>\<open>event\<close> column; timestamps are Python integers (unbounded).
  The DataFrame is modelled as the list of its rows, in file order.
\<close>

datatype event_kind = START | COMPLETE | RELEASE | MISS | WDT_PET | INFO

record row =
  time_ms :: int
  event :: event_kind
  task :: string
  extra :: string

type_synonym dataframe = "row list"

text \<open>\<^verbatim>\<open>Series.unique()\<close>: the distinct values in order of first appearance.\<close>

fun unique :: "'a list \<Rightarrow> 'a list" where
  "unique [] = []"
| "unique (x # xs) = x # unique (filter (\<lambda>y. y \<noteq> x) xs)"

text \<open>\<^verbatim>\<open>dft[dft.event == k]['time_ms'].to_list()\<close>\<close>

definition times_of :: "event_kind \<Rightarrow> dataframe \<Rightarrow> int list" where
  "times_of k dft = map time_ms (filter (\<lambda>r. event r = k) dft)"

text \<open>
  \<^verbatim>\<open>df[df.task == task].sort_values('time_ms')\<close>. Only the \<^verbatim>\<open>time_ms\<close> values of
  the sorted frame are read afterwards (per event kind), and rows with equal keys have equal
  \<^verbatim>\<open>time_ms\<close>, so the order pandas gives to ties does not show in any list read from it.
\<close>

definition task_rows :: "dataframe \<Rightarrow> string \<Rightarrow> dataframe" where
  "task_rows df t = sort_key time_ms (filter (\<lambda>r. task r = t) df)"

section \<open>Pairing starts and releases with completes\<close>

text \<open>
  \<^verbatim>\<open>warnings.warn(f"Negative exec time for task {task} (start {s}, complete {c}). ...")\<close>
  and its twin for response times: a warning is recorded, nothing is raised.
\<close>

datatype warning =
  Negative_exec_time string int int
| Negative_response_time string int int

text \<open>
  \<^verbatim>\<open>next((i for i, c in enumerate(completes) if c >= s and i not in used), None)\<close>:
  the scan starts at index \<open>i\<close> of the whole list, with \<open>cs\<close> the part not yet visited.
\<close>

fun next_index :: "nat \<Rightarrow> int list \<Rightarrow> int \<Rightarrow> nat set \<Rightarrow> nat option" where
  "next_index i [] s used = None"
| "next_index i (c # cs) s used =
     (if c \<ge> s \<and> i \<notin> used then Some i else next_index (Suc i) cs s used)"

type_synonym pairing_state = "int list \<times> nat set \<times> warning list"

text \<open>The body of \<^verbatim>\<open>if idx is not None:\<close> (lines 53 to 59, and 70 to 75).\<close>

definition commit_pair ::
  "(int \<Rightarrow> int \<Rightarrow> warning) \<Rightarrow> int list \<Rightarrow> int \<Rightarrow> nat \<Rightarrow> pairing_state \<Rightarrow> pairing_state" where
  "commit_pair warn completes s idx st =
     (case st of (durs, used, warns) \<Rightarrow>
        (let dur = completes ! idx - s in
         if dur \<ge> 0 then (durs @ [dur], insert idx used, warns)
         else (durs, insert idx used, warns @ [warn s (completes ! idx)])))"

text \<open>One iteration of \<^verbatim>\<open>for s in starts:\<close> (and of \<^verbatim>\<open>for r in releases:\<close>).\<close>

definition pair_step ::
  "(int \<Rightarrow> int \<Rightarrow> warning) \<Rightarrow> int list \<Rightarrow> int \<Rightarrow> pairing_state \<Rightarrow> pairing_state" where
  "pair_step warn completes s st =
     (case next_index 0 completes s (fst (snd st)) of
        None \<Rightarrow> st
      | Some idx \<Rightarrow> commit_pair warn completes s idx st)"

definition pair_loop ::
  "(int \<Rightarrow> int \<Rightarrow> warning) \<Rightarrow> int list \<Rightarrow> int list \<Rightarrow> pairing_state" where
  "pair_loop warn completes xs = fold (pair_step warn completes) xs ([], {}, [])"

text \<open>The body of \<^verbatim>\<open>for task in tasks:\<close> up to the three lists it stores.\<close>

record task_lists =
  execs :: "int list"
  resps :: "int list"
  rels :: "int list"
  warned :: "warning list"

definition reconcile :: "string \<Rightarrow> dataframe \<Rightarrow> task_lists" where
  "reconcile t dft =
     (let starts = times_of START dft;
          completes = times_of COMPLETE dft;
          releases = times_of RELEASE dft;
          ex = pair_loop (Negative_exec_time t) completes starts;
          rs = pair_loop (Negative_response_time t) completes releases
      in \<lparr> execs = fst ex, resps = fst rs, rels = releases,
           warned = snd (snd ex) @ snd (snd rs) \<rparr>)"

text \<open>
  A Python dict keeps insertion order; \<^verbatim>\<open>d[k] = v\<close> is \<^const>\<open>AList.update\<close>
  and \<^verbatim>\<open>d.get(k, [])\<close> is \<open>get_list\<close>.
\<close>

type_synonym list_map = "(string \<times> int list) list"

definition get_list :: "list_map \<Rightarrow> string \<Rightarrow> int list" where
  "get_list m k = (case map_of m k of None \<Rightarrow> [] | Some v \<Rightarrow> v)"

definition infrastructure :: "string list" where
  "infrastructure = [''WDT'', ''INFO'', ''Supervisor'']"

definition tasks_of :: "dataframe \<Rightarrow> string list" where
  "tasks_of df = filter (\<lambda>t. t \<notin> set infrastructure) (unique (map task df))"

record built =
  exec_map :: list_map
  resp_map :: list_map
  releases_map :: list_map
  warnings :: "warning list"

definition store_task :: "dataframe \<Rightarrow> string \<Rightarrow> built \<Rightarrow> built" where
  "store_task df t b =
     (let l = reconcile t (task_rows df t) in
      \<lparr> exec_map = AList.update t (execs l) (exec_map b),
        resp_map = AList.update t (resps l) (resp_map b),
        releases_map = AList.update t (rels l) (releases_map b),
        warnings = warnings b @ warned l \<rparr>)"

definition build_task_execution_lists :: "dataframe \<Rightarrow> built" where
  "build_task_execution_lists df =
     fold (store_task df) (tasks_of df)
       \<lparr> exec_map = [], resp_map = [], releases_map = [], warnings = [] \<rparr>"

section \<open>Python and NumPy floats\<close>

text \<open>
  A finite binary64 value is modelled by the rational number it denotes, so that every
  float operation is the exact operation followed by rounding to the nearest binary64
  value, ties to the even significand. \<open>to_float64\<close> is that rounding: 53 significant
  bits, the subnormal spacing \<open>2 powi (- 1074)\<close> at the bottom; the overflow at the top is
  checked where the operation is. Signed zeros are not distinguished.
\<close>

definition round_half_even :: "rat \<Rightarrow> int" where
  "round_half_even x =
     (let f = \<lfloor>x\<rfloor>; d = x - of_int f in
      if d < 1 / 2 then f else if d > 1 / 2 then f + 1 else if even f then f else f + 1)"

definition floor_log2 :: "rat \<Rightarrow> int" where
  "floor_log2 q =
     (case quotient_of q of (a, b) \<Rightarrow>
        (let k = bitlen a - bitlen b in if 2 powi k \<le> q then k else k - 1))"

definition to_float64 :: "rat \<Rightarrow> rat" where
  "to_float64 q =
     (if q = 0 then 0
      else (let e = max (floor_log2 \<bar>q\<bar> - 52) (- 1074) in
            sgn q * of_int (round_half_even (\<bar>q\<bar> / 2 powi e)) * 2 powi e))"

datatype py_error = KeyError | OverflowError | ZeroDivisionError

text \<open>
  \<^verbatim>\<open>a / b\<close> on two Python integers: the correctly rounded quotient,
  \<^verbatim>\<open>ZeroDivisionError\<close> for a zero divisor and \<^verbatim>\<open>OverflowError\<close> when the
  result is too large for a float.
\<close>

definition truediv :: "int \<Rightarrow> int \<Rightarrow> py_error + rat" where
  "truediv a b =
     (if b = 0 then Inl ZeroDivisionError
      else (let r = to_float64 (of_int a / of_int b) in
            if \<bar>r\<bar> \<ge> 2 ^ 1024 then Inl OverflowError else Inr r))"

text \<open>
  \<^verbatim>\<open>round(x, nd)\<close> on a Python float, for the digit counts 2 and 3 the program uses:
  the exact value of \<open>x\<close> is rounded to \<open>nd\<close> decimals, half to even, and the decimal
  is read back as a float.
\<close>

definition round_float :: "rat \<Rightarrow> nat \<Rightarrow> rat" where
  "round_float x nd = to_float64 (of_int (round_half_even (x * 10 ^ nd)) / 10 ^ nd)"

text \<open>\<^verbatim>\<open>round(n, nd)\<close> on a Python integer with \<open>nd \<ge> 0\<close> is the integer.\<close>

definition round_int :: "int \<Rightarrow> nat \<Rightarrow> int" where
  "round_int n nd = n"

text \<open>
  \<^verbatim>\<open>round(x, nd)\<close> on a \<^verbatim>\<open>numpy.float64\<close>: NumPy multiplies by \<open>10 ^ nd\<close>, rounds
  to the nearest integer (half to even) and divides again, each step in binary64.
\<close>

definition np_round :: "rat \<Rightarrow> nat \<Rightarrow> rat" where
  "np_round x nd =
     to_float64 (of_int (round_half_even (to_float64 (x * 10 ^ nd))) / 10 ^ nd)"

text \<open>A float of the program: \<^verbatim>\<open>nan\<close> or a finite value.\<close>

datatype float64 = NaN | Finite rat

section \<open>The summary metrics\<close>

record metrics =
  task_name :: string
  avg_exec_time_ms :: float64
  avg_response_ms :: float64
  miss_ratio :: rat
  total_exec_time_ms :: int
  release_count :: nat

text \<open>\<^verbatim>\<open>round(sum(xs) / len(xs), 2) if xs else np.nan\<close>\<close>

definition mean_or_nan :: "int list \<Rightarrow> py_error + float64" where
  "mean_or_nan xs =
     (if xs \<noteq> [] then
        (case truediv (sum_list xs) (int (length xs)) of
           Inl e \<Rightarrow> Inl e
         | Inr q \<Rightarrow> Inr (Finite (round_float q 2)))
      else Inr NaN)"

text \<open>The body of \<^verbatim>\<open>for task in exec_map.keys():\<close>, one dictionary of the list.\<close>

definition task_metrics ::
  "list_map \<Rightarrow> list_map \<Rightarrow> list_map \<Rightarrow> dataframe \<Rightarrow> string \<Rightarrow> py_error + metrics" where
  "task_metrics em rm relm df t =
     (let exec_times = get_list em t;
          resp_times = get_list rm t;
          releases = get_list relm t;
          dft = filter (\<lambda>r. task r = t) df;
          misses = length (filter (\<lambda>r. event r = MISS) dft);
          total = (if length releases > 0 then length releases else 1)
      in case mean_or_nan exec_times of
           Inl e \<Rightarrow> Inl e
         | Inr avg_exec \<Rightarrow>
        (case mean_or_nan resp_times of
           Inl e \<Rightarrow> Inl e
         | Inr avg_resp \<Rightarrow>
        (case truediv (int misses) (int total) of
           Inl e \<Rightarrow> Inl e
         | Inr q \<Rightarrow>
             Inr \<lparr> task_name = t,
                   avg_exec_time_ms = avg_exec,
                   avg_response_ms = avg_resp,
                   miss_ratio = round_float q 3,
                   total_exec_time_ms = round_int (sum_list exec_times) 2,
                   release_count = length releases \<rparr>)))"

text \<open>The loop stops at the first exception.\<close>

fun collect :: "('e + 'a) list \<Rightarrow> 'e + 'a list" where
  "collect [] = Inr []"
| "collect (x # xs) =
     (case x of
        Inl e \<Rightarrow> Inl e
      | Inr a \<Rightarrow> (case collect xs of Inl e \<Rightarrow> Inl e | Inr as \<Rightarrow> Inr (a # as)))"

text \<open>
  \<^verbatim>\<open>pd.DataFrame(metrics).set_index("task")\<close>: the rows in the order of the keys of
  \<^verbatim>\<open>exec_map\<close>. A frame built from the empty list has no column \<^verbatim>\<open>task\<close>, and
  \<^verbatim>\<open>set_index\<close> raises \<^verbatim>\<open>KeyError\<close>.
\<close>

definition analyze_from_lists ::
  "list_map \<Rightarrow> list_map \<Rightarrow> list_map \<Rightarrow> dataframe \<Rightarrow> py_error + metrics list" where
  "analyze_from_lists em rm relm df =
     (case collect (map (task_metrics em rm relm df) (map fst em)) of
        Inl e \<Rightarrow> Inl e
      | Inr ms \<Rightarrow> if ms = [] then Inl KeyError else Inr ms)"

text \<open>
  Lines 125 and 128, for either log:
  \<^verbatim>\<open>execs, resps, rels = build_task_execution_lists(df)\<close> and
  \<^verbatim>\<open>analyze_from_lists(execs, resps, rels, df)\<close>.
\<close>

definition analyze_trace :: "dataframe \<Rightarrow> py_error + metrics list" where
  "analyze_trace df =
     (let b = build_task_execution_lists df in
      analyze_from_lists (exec_map b) (resp_map b) (releases_map b) df)"

section \<open>The watchdog interval\<close>

text \<open>
  The frame holds the timestamps of all its rows in one column. pandas gives the column the
  dtype \<^verbatim>\<open>int64\<close> when every timestamp lies in \<open>[- 2 ^ 63, 2 ^ 63)\<close>, \<^verbatim>\<open>uint64\<close>
  when one is larger and all lie in \<open>[0, 2 ^ 64)\<close>, and keeps the Python integers as
  objects otherwise. Selecting rows keeps the dtype.
\<close>

datatype dtype = Int64 | UInt64 | Object

definition column_dtype :: "int list \<Rightarrow> dtype" where
  "column_dtype ts =
     (if list_all (\<lambda>t. - (2 ^ 63) \<le> t \<and> t < 2 ^ 63) ts then Int64
      else if list_all (\<lambda>t. 0 \<le> t \<and> t < 2 ^ 64) ts then UInt64
      else Object)"

text \<open>Subtraction in a 64-bit integer type wraps around.\<close>

definition wrap :: "dtype \<Rightarrow> int \<Rightarrow> int" where
  "wrap d x =
     (case d of
        Int64 \<Rightarrow> (x + 2 ^ 63) mod 2 ^ 64 - 2 ^ 63
      | UInt64 \<Rightarrow> x mod 2 ^ 64
      | Object \<Rightarrow> x)"

text \<open>
  \<^verbatim>\<open>Series.diff()\<close> on a 64-bit integer column: \<^verbatim>\<open>NaN\<close> first and then each value
  minus the one before it, subtracted in the integer type and stored as binary64.
\<close>

definition series_diff :: "dtype \<Rightarrow> int list \<Rightarrow> float64 list" where
  "series_diff d xs =
     (case xs of
        [] \<Rightarrow> []
      | x # rest \<Rightarrow>
          NaN # map (\<lambda>(a, b). Finite (to_float64 (of_int (wrap d (b - a))))) (zip xs rest))"

text \<open>\<^verbatim>\<open>dropna()\<close> keeps the values that are not \<^verbatim>\<open>NaN\<close>.\<close>

definition dropna :: "float64 list \<Rightarrow> rat list" where
  "dropna xs = List.map_filter (\<lambda>x. case x of NaN \<Rightarrow> None | Finite q \<Rightarrow> Some q) xs"

text \<open>
  The binary64 sum of a series, each addition rounded, from 0 in the order of the series.
  NumPy adds in this order below 8 values and in blocks beyond; every order gives the same
  sum when the partial sums are exact.
\<close>

definition float_sum :: "rat list \<Rightarrow> rat" where
  "float_sum xs = fold (\<lambda>x acc. to_float64 (acc + x)) xs 0"

text \<open>
  \<^verbatim>\<open>mean()\<close>: the binary64 sum divided by the count, itself a binary64 value;
  \<^verbatim>\<open>NaN\<close> on an empty series.
\<close>

definition series_mean :: "rat list \<Rightarrow> float64" where
  "series_mean xs =
     (if xs = [] then NaN
      else Finite (to_float64 (float_sum xs / to_float64 (of_nat (length xs)))))"

definition round_float64 :: "float64 \<Rightarrow> nat \<Rightarrow> float64" where
  "round_float64 x nd = (case x of NaN \<Rightarrow> NaN | Finite q \<Rightarrow> Finite (np_round q nd))"

text \<open>
  The value \<^verbatim>\<open>watchdog_interval\<close> returns. On a column of Python objects (a timestamp
  outside 64 bits) pandas computes through other paths, which are left out here:
  \<open>Object_column\<close> stands for them.
\<close>

datatype 'a returned = Object_column | Returns 'a

definition watchdog_interval :: "dataframe \<Rightarrow> float64 option returned" where
  "watchdog_interval df =
     (let wd = filter (\<lambda>r. task r = ''WDT'') df in
      if length wd < 2 then Returns None
      else (case column_dtype (map time_ms df) of
              Object \<Rightarrow> Object_column
            | d \<Rightarrow>
                (let intervals = dropna (series_diff d (map time_ms wd)) in
                 Returns (Some (round_float64 (series_mean intervals) 2)))))"

section \<open>The specification's wording\<close>

text \<open>
  The lowest-index COMPLETE that is not yet consumed and whose timestamp is at least \<open>s\<close>.
\<close>

definition lowest_unconsumed :: "int list \<Rightarrow> nat set \<Rightarrow> int \<Rightarrow> nat option" where
  "lowest_unconsumed completes used s =
     List.find (\<lambda>i. completes ! i \<ge> s \<and> i \<notin> used) [0..<length completes]"

text \<open>
  First-fit matching: each timestamp in turn takes the lowest unconsumed COMPLETE at or
  after it and consumes it; a timestamp that finds none is dropped. The result lists the
  matched pairs (timestamp, index of the COMPLETE).
\<close>

fun first_fit :: "int list \<Rightarrow> nat set \<Rightarrow> int list \<Rightarrow> (int \<times> nat) list" where
  "first_fit completes used [] = []"
| "first_fit completes used (s # ss) =
     (case lowest_unconsumed completes used s of
        None \<Rightarrow> first_fit completes used ss
      | Some i \<Rightarrow> (s, i) # first_fit completes (insert i used) ss)"

definition durations :: "int list \<Rightarrow> (int \<times> nat) list \<Rightarrow> int list" where
  "durations completes ps = map (\<lambda>(s, i). completes ! i - s) ps"

text \<open>The consecutive differences of the timestamps taken in ascending order.\<close>

definition consecutive_differences :: "int list \<Rightarrow> int list" where
  "consecutive_differences ts =
     (let a = sort ts in map (\<lambda>i. a ! Suc i - a ! i) [0..<length a - 1])"

text \<open>
  The mean inter-arrival time: undefined below two timestamps, otherwise the mean of the
  consecutive differences, rounded to 2 decimals.
\<close>

definition mean_inter_arrival :: "int list \<Rightarrow> float64 option" where
  "mean_inter_arrival ts =
     (if length ts < 2 then None
      else (let ds = consecutive_differences ts in
            Some (Finite (np_round (to_float64 (of_int (sum_list ds) / of_nat (length ds))) 2))))"

text \<open>The sum of the absolute differences of consecutive timestamps, in the given order.\<close>

definition total_variation :: "int list \<Rightarrow> int" where
  "total_variation ts = sum_list (map (\<lambda>(a, b). \<bar>b - a\<bar>) (zip ts (tl ts)))"

text \<open>The WDT timestamps of a trace, in trace order.\<close>

definition wdt_times :: "dataframe \<Rightarrow> int list" where
  "wdt_times df = map time_ms (filter (\<lambda>r. task r = ''WDT'') df)"

text \<open>The number of events of one kind that a task has in a trace.\<close>

definition count_events :: "event_kind \<Rightarrow> string \<Rightarrow> dataframe \<Rightarrow> nat" where
  "count_events k t df = length (filter (\<lambda>r. task r = t \<and> event r = k) df)"

text \<open>A row of the log \<^verbatim>\<open>time,KIND,task\<close>.\<close>

definition ev :: "int \<Rightarrow> event_kind \<Rightarrow> string \<Rightarrow> row" where
  "ev tm k t = \<lparr> time_ms = tm, event = k, task = t, extra = [] \<rparr>"

section \<open>The pairing loop is first-fit matching\<close>

lemma next_index_find:
  "next_index (length pre) cs s used =
     List.find (\<lambda>i. (pre @ cs) ! i \<ge> s \<and> i \<notin> used) [length pre..<length pre + length cs]"
proof (induction cs arbitrary: pre)
  case Nil
  then show ?case by simp
next
  case (Cons c cs)
  have "next_index (Suc (length pre)) cs s used =
     List.find (\<lambda>i. ((pre @ [c]) @ cs) ! i \<ge> s \<and> i \<notin> used)
       [length (pre @ [c])..<length (pre @ [c]) + length cs]"
    using Cons.IH [of "pre @ [c]"] by simp
  moreover have "[length pre..<length pre + length (c # cs)] =
      length pre # [length (pre @ [c])..<length (pre @ [c]) + length cs]"
    by (simp add: upt_conv_Cons del: upt_Suc)
  ultimately show ?case by (simp del: upt_Suc)
qed

lemma next_index_lowest: "next_index 0 cs s used = lowest_unconsumed cs used s"
  using next_index_find [of "[]" cs s used] by (simp add: lowest_unconsumed_def)

lemma lowest_unconsumed_Some:
  "lowest_unconsumed cs used s = Some i \<Longrightarrow> i < length cs \<and> s \<le> cs ! i \<and> i \<notin> used"
  by (auto simp: lowest_unconsumed_def find_Some_iff)

lemma next_index_Some_iff:
  "next_index 0 cs s used = Some i \<longleftrightarrow>
     i < length cs \<and> s \<le> cs ! i \<and> i \<notin> used \<and> (\<forall>j<i. \<not> (s \<le> cs ! j \<and> j \<notin> used))"
proof -
  have "List.find (\<lambda>i. s \<le> cs ! i \<and> i \<notin> used) [0..<length cs] = Some i \<longleftrightarrow>
      i < length cs \<and> s \<le> cs ! i \<and> i \<notin> used \<and> (\<forall>j<i. \<not> (s \<le> cs ! j \<and> j \<notin> used))"
    unfolding find_Some_iff
  proof (intro iffI)
    assume "\<exists>k<length [0..<length cs].
       (s \<le> cs ! ([0..<length cs] ! k) \<and> [0..<length cs] ! k \<notin> used) \<and>
       i = [0..<length cs] ! k \<and>
       (\<forall>j<k. \<not> (s \<le> cs ! ([0..<length cs] ! j) \<and> [0..<length cs] ! j \<notin> used))"
    then obtain k where k: "k < length cs" "s \<le> cs ! k" "k \<notin> used" "i = k"
      "\<forall>j<k. \<not> (s \<le> cs ! ([0..<length cs] ! j) \<and> [0..<length cs] ! j \<notin> used)"
      by auto
    have "\<forall>j<k. \<not> (s \<le> cs ! j \<and> j \<notin> used)"
    proof (intro allI impI)
      fix j assume j: "j < k"
      then have "[0..<length cs] ! j = j" using k(1) by simp
      then show "\<not> (s \<le> cs ! j \<and> j \<notin> used)" using k(5) j by metis
    qed
    then show "i < length cs \<and> s \<le> cs ! i \<and> i \<notin> used \<and> (\<forall>j<i. \<not> (s \<le> cs ! j \<and> j \<notin> used))"
      using k by simp
  next
    assume a: "i < length cs \<and> s \<le> cs ! i \<and> i \<notin> used \<and> (\<forall>j<i. \<not> (s \<le> cs ! j \<and> j \<notin> used))"
    then have "i < length [0..<length cs] \<and>
       (s \<le> cs ! ([0..<length cs] ! i) \<and> [0..<length cs] ! i \<notin> used) \<and>
       i = [0..<length cs] ! i \<and>
       (\<forall>j<i. \<not> (s \<le> cs ! ([0..<length cs] ! j) \<and> [0..<length cs] ! j \<notin> used))"
      by simp
    then show "\<exists>k<length [0..<length cs].
       (s \<le> cs ! ([0..<length cs] ! k) \<and> [0..<length cs] ! k \<notin> used) \<and>
       i = [0..<length cs] ! k \<and>
       (\<forall>j<k. \<not> (s \<le> cs ! ([0..<length cs] ! j) \<and> [0..<length cs] ! j \<notin> used))"
      by blast
  qed
  then show ?thesis by (simp add: next_index_lowest lowest_unconsumed_def)
qed

lemma next_index_None_iff:
  "next_index 0 cs s used = None \<longleftrightarrow> (\<forall>j<length cs. \<not> (s \<le> cs ! j \<and> j \<notin> used))"
  by (auto simp: next_index_lowest lowest_unconsumed_def find_None_iff)

lemma pair_step_first_fit:
  "pair_step w cs s (d, u, ws) =
     (d @ durations cs (first_fit cs u [s]), u \<union> snd ` set (first_fit cs u [s]), ws)"
  by (auto simp: pair_step_def commit_pair_def next_index_lowest durations_def Let_def
      split: option.splits dest: lowest_unconsumed_Some)

lemma fold_pair_step:
  "fold (pair_step w cs) ss (d, u, ws) =
     (d @ durations cs (first_fit cs u ss), u \<union> snd ` set (first_fit cs u ss), ws)"
proof (induction ss arbitrary: d u)
  case Nil
  then show ?case by (simp add: durations_def)
next
  case (Cons s ss)
  show ?case
  proof (cases "lowest_unconsumed cs u s")
    case None
    then show ?thesis using Cons.IH [of d u]
      by (simp add: pair_step_first_fit durations_def)
  next
    case (Some i)
    then show ?thesis using Cons.IH [of "d @ [cs ! i - s]" "insert i u"]
      by (simp add: pair_step_first_fit durations_def)
  qed
qed

lemma first_fit_fresh: "snd ` set (first_fit cs u ss) \<inter> u = {}"
proof (induction ss arbitrary: u)
  case Nil
  then show ?case by simp
next
  case (Cons s ss)
  then show ?case
    by (fastforce split: option.splits dest: lowest_unconsumed_Some)
qed

lemma first_fit_distinct: "distinct (map snd (first_fit cs u ss))"
proof (induction ss arbitrary: u)
  case Nil
  then show ?case by simp
next
  case (Cons s ss)
  show ?case
  proof (cases "lowest_unconsumed cs u s")
    case None
    then show ?thesis using Cons.IH by simp
  next
    case (Some i)
    have "i \<notin> snd ` set (first_fit cs (insert i u) ss)"
      using first_fit_fresh [of cs "insert i u" ss] by auto
    then show ?thesis using Some Cons.IH by simp
  qed
qed

lemma first_fit_length: "length (first_fit cs u ss) \<le> length ss"
  by (induction ss arbitrary: u) (auto split: option.splits intro: le_SucI)

lemma first_fit_nonneg: "(s, i) \<in> set (first_fit cs u ss) \<Longrightarrow> i < length cs \<and> s \<le> cs ! i"
  by (induction ss arbitrary: u) (auto split: option.splits dest: lowest_unconsumed_Some)

lemma pair_loop_first_fit:
  "pair_loop w cs ss = (durations cs (first_fit cs {} ss), snd ` set (first_fit cs {} ss), [])"
  by (simp add: pair_loop_def fold_pair_step)

lemma execs_reconcile:
  "execs (reconcile t dft) =
     durations (times_of COMPLETE dft) (first_fit (times_of COMPLETE dft) {} (times_of START dft))"
  by (simp add: reconcile_def Let_def pair_loop_first_fit)

lemma resps_reconcile:
  "resps (reconcile t dft) =
     durations (times_of COMPLETE dft) (first_fit (times_of COMPLETE dft) {} (times_of RELEASE dft))"
  by (simp add: reconcile_def Let_def pair_loop_first_fit)

lemma rels_reconcile: "rels (reconcile t dft) = times_of RELEASE dft"
  by (simp add: reconcile_def Let_def)

lemma warned_reconcile: "warned (reconcile t dft) = []"
  by (simp add: reconcile_def Let_def pair_loop_first_fit)

lemma durations_nonneg: "d \<in> set (durations cs (first_fit cs u ss)) \<Longrightarrow> 0 \<le> d"
  by (auto simp: durations_def dest: first_fit_nonneg)

lemma length_durations: "length (durations cs ps) = length ps"
  by (simp add: durations_def)

lemma set_unique: "set (unique xs) = set xs"
  by (induction xs rule: unique.induct) auto

lemma distinct_unique: "distinct (unique xs)"
  by (induction xs rule: unique.induct) (auto simp: set_unique)

lemma distinct_tasks_of: "distinct (tasks_of df)"
  by (simp add: tasks_of_def distinct_unique)

lemma tasks_of_not_infrastructure: "t \<in> set (tasks_of df) \<Longrightarrow> t \<notin> set infrastructure"
  by (simp add: tasks_of_def)

lemma set_tasks_of: "set (tasks_of df) = task ` set df - set infrastructure"
  by (auto simp: tasks_of_def set_unique)

lemma update_fresh: "k \<notin> fst ` set al \<Longrightarrow> AList.update k v al = al @ [(k, v)]"
  by (induction al) auto

lemma fold_store_task:
  "distinct ts \<Longrightarrow> set ts \<inter> fst ` set (exec_map b) = {} \<Longrightarrow>
   set ts \<inter> fst ` set (resp_map b) = {} \<Longrightarrow> set ts \<inter> fst ` set (releases_map b) = {} \<Longrightarrow>
   fold (store_task df) ts b =
     \<lparr> exec_map = exec_map b @ map (\<lambda>t. (t, execs (reconcile t (task_rows df t)))) ts,
       resp_map = resp_map b @ map (\<lambda>t. (t, resps (reconcile t (task_rows df t)))) ts,
       releases_map = releases_map b @ map (\<lambda>t. (t, rels (reconcile t (task_rows df t)))) ts,
       warnings = warnings b \<rparr>"
proof (induction ts arbitrary: b)
  case Nil
  then show ?case by simp
next
  case (Cons t ts)
  let ?b = "store_task df t b"
  have fresh: "t \<notin> fst ` set (exec_map b)" "t \<notin> fst ` set (resp_map b)"
    "t \<notin> fst ` set (releases_map b)"
    using Cons.prems by auto
  have e: "exec_map ?b = exec_map b @ [(t, execs (reconcile t (task_rows df t)))]"
    and r: "resp_map ?b = resp_map b @ [(t, resps (reconcile t (task_rows df t)))]"
    and l: "releases_map ?b = releases_map b @ [(t, rels (reconcile t (task_rows df t)))]"
    and w: "warnings ?b = warnings b"
    using fresh by (simp_all add: store_task_def Let_def update_fresh warned_reconcile)
  have "fold (store_task df) ts ?b =
     \<lparr> exec_map = exec_map ?b @ map (\<lambda>t. (t, execs (reconcile t (task_rows df t)))) ts,
       resp_map = resp_map ?b @ map (\<lambda>t. (t, resps (reconcile t (task_rows df t)))) ts,
       releases_map = releases_map ?b @ map (\<lambda>t. (t, rels (reconcile t (task_rows df t)))) ts,
       warnings = warnings ?b \<rparr>"
  proof (rule Cons.IH)
    show "distinct ts" using Cons.prems by simp
    show "set ts \<inter> fst ` set (exec_map ?b) = {}" using Cons.prems by (auto simp: e)
    show "set ts \<inter> fst ` set (resp_map ?b) = {}" using Cons.prems by (auto simp: r)
    show "set ts \<inter> fst ` set (releases_map ?b) = {}" using Cons.prems by (auto simp: l)
  qed
  then show ?case by (simp add: e r l w)
qed

lemma build_eq:
  "build_task_execution_lists df =
     \<lparr> exec_map = map (\<lambda>t. (t, execs (reconcile t (task_rows df t)))) (tasks_of df),
       resp_map = map (\<lambda>t. (t, resps (reconcile t (task_rows df t)))) (tasks_of df),
       releases_map = map (\<lambda>t. (t, rels (reconcile t (task_rows df t)))) (tasks_of df),
       warnings = [] \<rparr>"
  unfolding build_task_execution_lists_def
  by (subst fold_store_task) (simp_all add: distinct_tasks_of)

lemma get_list_map:
  "get_list (map (\<lambda>t. (t, f t)) ts) k = (if k \<in> set ts then f k else [])"
  by (induction ts) (auto simp: get_list_def)

lemma times_of_task_rows_length:
  "length (times_of k (task_rows df t)) = count_events k t df"
  by (simp add: times_of_def task_rows_def count_events_def filter_sort conj_commute)

lemma sorted_task_rows: "sorted (map time_ms (task_rows df t))"
  by (simp add: task_rows_def)

lemma sorted_times_of: "sorted (map time_ms dft) \<Longrightarrow> sorted (times_of k dft)"
  by (simp add: times_of_def sorted_filter)

lemma collect_Inr: "collect xs = Inr ys \<Longrightarrow> xs = map Inr ys"
  by (induction xs arbitrary: ys) (auto split: sum.splits)

lemma analyze_rows:
  assumes "analyze_from_lists em rm relm df = Inr rows" "row \<in> set rows"
  shows "task_metrics em rm relm df (task_name row) = Inr row \<and> task_name row \<in> fst ` set em"
proof -
  have c: "collect (map (task_metrics em rm relm df) (map fst em)) = Inr rows"
    using assms(1) by (auto simp: analyze_from_lists_def split: sum.splits if_splits)
  then have "map (task_metrics em rm relm df) (map fst em) = map Inr rows"
    by (rule collect_Inr)
  then have "Inr row \<in> set (map (task_metrics em rm relm df) (map fst em))"
    using assms(2) by simp
  then obtain t where t: "t \<in> fst ` set em" "task_metrics em rm relm df t = Inr row"
    by fastforce
  then have "task_name row = t"
    by (auto simp: task_metrics_def Let_def split: sum.splits)
  then show ?thesis using t by simp
qed

lemma task_metrics_fields:
  assumes "task_metrics em rm relm df t = Inr row"
  shows "mean_or_nan (get_list em t) = Inr (avg_exec_time_ms row)"
    and "mean_or_nan (get_list rm t) = Inr (avg_response_ms row)"
    and "\<exists>q. truediv (int (count_events MISS t df)) (int (max (length (get_list relm t)) 1)) = Inr q
           \<and> miss_ratio row = round_float q 3"
    and "total_exec_time_ms row = round_int (sum_list (get_list em t)) 2"
    and "release_count row = length (get_list relm t)"
proof -
  have m: "(if length (get_list relm t) > 0 then length (get_list relm t) else 1) =
      max (length (get_list relm t)) 1"
    by (cases "get_list relm t") simp_all
  have c: "length (filter (\<lambda>r. event r = MISS) (filter (\<lambda>r. task r = t) df)) =
      count_events MISS t df"
    by (simp add: count_events_def conj_commute)
  show "mean_or_nan (get_list em t) = Inr (avg_exec_time_ms row)"
    and "mean_or_nan (get_list rm t) = Inr (avg_response_ms row)"
    and "total_exec_time_ms row = round_int (sum_list (get_list em t)) 2"
    and "release_count row = length (get_list relm t)"
    using assms by (auto simp: task_metrics_def Let_def split: sum.splits)
  show "\<exists>q. truediv (int (count_events MISS t df)) (int (max (length (get_list relm t)) 1)) = Inr q
           \<and> miss_ratio row = round_float q 3"
    using assms unfolding task_metrics_def Let_def m c
    by (auto split: sum.splits)
qed

section \<open>Rounding to binary64\<close>

lemma round_half_even_of_int: "round_half_even (of_int n) = n"
  by (simp add: round_half_even_def)

lemma round_half_even_le: "x \<le> of_int n \<Longrightarrow> round_half_even x \<le> n"
proof -
  assume a: "x \<le> of_int n"
  have f: "\<lfloor>x\<rfloor> \<le> n" using a by (simp add: floor_le_iff)
  show ?thesis
  proof (cases "x - of_int \<lfloor>x\<rfloor> < 1 / 2")
    case True
    then show ?thesis using f by (simp add: round_half_even_def)
  next
    case False
    then have "of_int \<lfloor>x\<rfloor> < x" by simp
    then have "of_int \<lfloor>x\<rfloor> < (of_int n :: rat)" using a by simp
    then have "\<lfloor>x\<rfloor> < n" by simp
    then show ?thesis by (simp add: round_half_even_def Let_def)
  qed
qed

lemma round_half_even_ge: "of_int n \<le> x \<Longrightarrow> n \<le> round_half_even x"
proof -
  assume "of_int n \<le> x"
  then have "n \<le> \<lfloor>x\<rfloor>" by (simp add: le_floor_iff)
  then show ?thesis by (simp add: round_half_even_def Let_def)
qed

lemma round_half_even_small: "0 \<le> x \<Longrightarrow> x \<le> 1 / 2 \<Longrightarrow> round_half_even x = 0"
proof -
  assume a: "0 \<le> x" "x \<le> 1 / 2"
  then have "\<lfloor>x\<rfloor> = 0" by (simp add: floor_eq_iff)
  then show ?thesis using a by (simp add: round_half_even_def)
qed

lemma floor_log2_le: "0 < q \<Longrightarrow> 2 powi (floor_log2 q) \<le> q"
proof -
  assume q: "0 < q"
  obtain a b where ab: "quotient_of q = (a, b)" by (cases "quotient_of q")
  have b: "0 < b" using ab quotient_of_denom_pos by blast
  have qa: "q = of_int a / of_int b" using ab quotient_of_div by blast
  have a: "0 < a" using q b qa by (simp add: zero_less_divide_iff)
  show ?thesis
  proof (cases "(2::rat) powi (bitlen a - bitlen b) \<le> q")
    case True
    then show ?thesis using ab by (simp add: floor_log2_def)
  next
    case False
    have la: "bitlen a \<ge> 1" using a bitlen_eq_zero_iff [of a] bitlen_nonneg [of a] by linarith
    have "(2::int) ^ nat (bitlen a - 1) \<le> a" using bitlen_bounds [OF a] by simp
    then have "(of_int ((2::int) ^ nat (bitlen a - 1)) :: rat) \<le> of_int a"
      by (simp only: of_int_le_iff)
    then have 1: "(2::rat) powi (bitlen a - 1) \<le> of_int a"
      using la by (simp add: power_int_def)
    have "b < (2::int) ^ nat (bitlen b)" using bitlen_bounds [OF b] by simp
    then have "(of_int b :: rat) < of_int ((2::int) ^ nat (bitlen b))"
      by (simp only: of_int_less_iff)
    then have 2: "(of_int b :: rat) \<le> 2 powi (bitlen b)"
      using bitlen_nonneg [of b] by (simp add: power_int_def)
    have "(2::rat) powi (bitlen a - bitlen b - 1) = 2 powi (bitlen a - 1) / 2 powi (bitlen b)"
      using power_int_diff [of "2::rat" "bitlen a - 1" "bitlen b"] by (simp add: algebra_simps)
    also have "\<dots> \<le> of_int a / 2 powi (bitlen b)"
      using 1 by (simp add: divide_right_mono)
    also have "\<dots> \<le> of_int a / of_int b"
      using 2 a b by (simp add: divide_left_mono)
    finally show ?thesis using False ab qa by (simp add: floor_log2_def)
  qed
qed

lemma to_float64_unit: assumes "0 \<le> q" "q \<le> 1" shows "0 \<le> to_float64 q \<and> to_float64 q \<le> 1"
proof (cases "q = 0")
  case True
  then show ?thesis by (simp add: to_float64_def)
next
  case False
  define e where "e = max (floor_log2 \<bar>q\<bar> - 52) (- 1074)"
  define m where "m = round_half_even (q / 2 powi e)"
  have q: "0 < q" using False assms by simp
  have v: "to_float64 q = of_int m * 2 powi e"
    using q by (simp add: to_float64_def e_def m_def Let_def)
  have p: "(0::rat) < 2 powi e" by simp
  have "0 \<le> q / 2 powi e" using q p by simp
  then have "of_int 0 \<le> q / 2 powi e" by simp
  then have m0: "0 \<le> m" unfolding m_def by (rule round_half_even_ge)
  have lo: "0 \<le> to_float64 q" using m0 p v by simp
  have hi: "to_float64 q \<le> 1"
  proof (cases "e \<le> 0")
    case True
    have pe: "(2::rat) powi e = 1 / 2 ^ nat (- e)"
      using True by (simp add: power_int_def field_simps)
    have "q / 2 powi e = q * 2 ^ nat (- e)" by (simp add: pe)
    also have "\<dots> \<le> 1 * 2 ^ nat (- e)" using assms by (simp add: mult_right_mono)
    finally have "q / 2 powi e \<le> of_int (2 ^ nat (- e))" by simp
    then have "m \<le> 2 ^ nat (- e)" unfolding m_def by (rule round_half_even_le)
    then have "(of_int m :: rat) \<le> of_int (2 ^ nat (- e))" by (simp only: of_int_le_iff)
    then have "(of_int m :: rat) \<le> 2 ^ nat (- e)" by simp
    then show ?thesis by (simp add: v pe field_simps)
  next
    case False
    then have "1 \<le> e" by simp
    then have "(2::rat) powi 1 \<le> 2 powi e" by (intro power_int_increasing) simp_all
    then have "(2::rat) \<le> 2 powi e" by simp
    then have "q / 2 powi e \<le> 1 / 2"
      using assms q by (simp add: field_simps) 
    moreover have "0 \<le> q / 2 powi e" using q by simp
    ultimately have "m = 0" unfolding m_def by (simp add: round_half_even_small)
    then show ?thesis by (simp add: v)
  qed
  show ?thesis using lo hi by simp
qed

lemma to_float64_of_int:
  assumes "0 \<le> n" "n < 2 ^ 53" shows "to_float64 (of_int n) = of_int n"
proof (cases "n = 0")
  case True
  then show ?thesis by (simp add: to_float64_def)
next
  case False
  define q :: rat where "q = of_int n"
  define e where "e = max (floor_log2 \<bar>q\<bar> - 52) (- 1074)"
  have q: "0 < q" using False assms by (simp add: q_def)
  have "2 powi (floor_log2 q) \<le> q" using q by (rule floor_log2_le)
  also have "q < 2 powi 53" using assms by (simp add: q_def)
  finally have "(2::rat) powi (floor_log2 q) < 2 powi 53" .
  then have "floor_log2 q < 53"
    by (rule power_int_le_imp_less_exp [rotated]) simp_all
  then have e: "e \<le> 0" using q by (simp add: e_def)
  have pe: "(2::rat) powi e = 1 / 2 ^ nat (- e)"
    using e by (simp add: power_int_def field_simps)
  have "q / 2 powi e = of_int (n * 2 ^ nat (- e))" by (simp add: pe q_def)
  then have m: "round_half_even (q / 2 powi e) = n * 2 ^ nat (- e)"
    by (simp only: round_half_even_of_int)
  have "to_float64 q = of_int (round_half_even (q / 2 powi e)) * 2 powi e"
    using q by (simp add: to_float64_def e_def Let_def)
  also have "\<dots> = of_int (n * 2 ^ nat (- e)) * 2 powi e" by (simp only: m)
  also have "\<dots> = of_int n" by (simp add: pe)
  finally show ?thesis by (simp add: q_def)
qed

lemma round_float_unit:
  assumes "0 \<le> x" "x \<le> 1" shows "0 \<le> round_float x nd \<and> round_float x nd \<le> 1"
proof -
  define k where "k = round_half_even (x * 10 ^ nd)"
  have "of_int 0 \<le> x * 10 ^ nd" using assms by simp
  then have k0: "0 \<le> k" unfolding k_def by (rule round_half_even_ge)
  have "x * 10 ^ nd \<le> 1 * 10 ^ nd" using assms by (simp add: mult_right_mono)
  then have "x * 10 ^ nd \<le> of_int (10 ^ nd)" by simp
  then have "k \<le> 10 ^ nd" unfolding k_def by (rule round_half_even_le)
  then have "(of_int k :: rat) \<le> of_int (10 ^ nd)" by (simp only: of_int_le_iff)
  then have "(of_int k :: rat) / 10 ^ nd \<le> 1" by (simp add: field_simps)
  moreover have "0 \<le> (of_int k :: rat) / 10 ^ nd" using k0 by simp
  ultimately show ?thesis unfolding round_float_def k_def [symmetric]
    by (intro to_float64_unit)
qed


lemma to_float64_nonneg: assumes "0 \<le> q" shows "0 \<le> to_float64 q"
proof (cases "q = 0")
  case True
  then show ?thesis by (simp add: to_float64_def)
next
  case False
  define e where "e = max (floor_log2 \<bar>q\<bar> - 52) (- 1074)"
  have q: "0 < q" using False assms by simp
  have v: "to_float64 q = of_int (round_half_even (q / 2 powi e)) * 2 powi e"
    using q by (simp add: to_float64_def e_def Let_def)
  have "of_int 0 \<le> q / 2 powi e" using q by simp
  then have "0 \<le> round_half_even (q / 2 powi e)" by (rule round_half_even_ge)
  then show ?thesis by (simp add: v)
qed

lemma round_float_nonneg: assumes "0 \<le> x" shows "0 \<le> round_float x nd"
proof -
  have "of_int 0 \<le> x * 10 ^ nd" using assms by simp
  then have "0 \<le> round_half_even (x * 10 ^ nd)" by (rule round_half_even_ge)
  then show ?thesis unfolding round_float_def by (intro to_float64_nonneg) simp
qed

lemma truediv_Inr: "truediv a b = Inr q \<Longrightarrow> q = to_float64 (of_int a / of_int b)"
  by (auto simp: truediv_def Let_def split: if_splits)

lemma to_float64_minus: "to_float64 (- q) = - to_float64 q"
  by (simp add: to_float64_def Let_def)

lemma to_float64_of_int_abs:
  assumes "\<bar>n\<bar> < 2 ^ 53" shows "to_float64 (of_int n) = of_int n"
proof (cases "0 \<le> n")
  case True
  then show ?thesis using assms by (simp add: to_float64_of_int)
next
  case False
  then have "to_float64 (of_int (- n)) = of_int (- n)"
    using assms by (intro to_float64_of_int) simp_all
  then show ?thesis using to_float64_minus [of "of_int n"] by simp
qed

lemma to_float64_of_nat:
  assumes "n \<le> 2 ^ 53" shows "to_float64 (of_nat n) = of_nat n"
proof (cases "n = 2 ^ 53")
  case True
  have "to_float64 (9007199254740992) = 9007199254740992" by code_simp
  then show ?thesis using True by simp
next
  case False
  then have "int n < 2 ^ 53" using assms by (simp add: nat_less_iff flip: of_nat_less_iff)
  then have "to_float64 (of_int (int n)) = of_int (int n)"
    by (intro to_float64_of_int) simp_all
  then show ?thesis by simp
qed

lemma round_half_even_error: "\<bar>of_int (round_half_even y) - y\<bar> \<le> 1 / 2"
proof -
  define f where "f = \<lfloor>y\<rfloor>"
  define d where "d = y - of_int f"
  have d: "0 \<le> d" "d < 1" unfolding d_def f_def by linarith+
  have y: "y = of_int f + d" by (simp add: d_def)
  have r: "round_half_even y =
      (if d < 1 / 2 then f else if d > 1 / 2 then f + 1 else if even f then f else f + 1)"
    by (simp add: round_half_even_def Let_def f_def d_def)
  consider "d < 1 / 2" | "d > 1 / 2" | "d = 1 / 2" by linarith
  then show ?thesis
  proof cases
    case 1
    then have "of_int (round_half_even y) - y = - d" using r y by simp
    then show ?thesis using d 1 by simp
  next
    case 2
    then have "round_half_even y = f + 1" using r by simp
    then have "of_int (round_half_even y) - y = 1 - d" using y by simp
    then show ?thesis using d 2 by simp
  next
    case 3
    then have "round_half_even y = f \<or> round_half_even y = f + 1" using r by simp
    then have "of_int (round_half_even y) - y = - d \<or> of_int (round_half_even y) - y = 1 - d"
      using y by auto
    then show ?thesis using 3 by auto
  qed
qed

lemma to_float64_error: "\<bar>to_float64 x - x\<bar> \<le> \<bar>x\<bar> / 2 ^ 53 + 1 / 2 ^ 1075"
proof (cases "x = 0")
  case True
  then show ?thesis by (simp add: to_float64_def)
next
  case False
  define e where "e = max (floor_log2 \<bar>x\<bar> - 52) (- 1074)"
  define m where "m = round_half_even (\<bar>x\<bar> / 2 powi e)"
  have p: "(0::rat) < 2 powi e" by simp
  have ax: "0 < \<bar>x\<bar>" using False by simp
  have v: "to_float64 x = sgn x * (of_int m * 2 powi e)"
    using False by (simp add: to_float64_def e_def m_def Let_def mult.assoc)
  have x: "x = sgn x * \<bar>x\<bar>" by (simp add: abs_sgn mult.commute sgn_mult_abs)
  have "to_float64 x - x = sgn x * (of_int m * 2 powi e - \<bar>x\<bar>)"
    using v x by (metis right_diff_distrib)
  then have "\<bar>to_float64 x - x\<bar> = \<bar>of_int m * 2 powi e - \<bar>x\<bar>\<bar>"
    using False by (simp add: abs_mult abs_sgn_eq)
  also have "of_int m * 2 powi e - \<bar>x\<bar> = (of_int m - \<bar>x\<bar> / 2 powi e) * 2 powi e"
    by (simp add: field_simps)
  also have "\<bar>(of_int m - \<bar>x\<bar> / 2 powi e) * 2 powi e\<bar> = \<bar>of_int m - \<bar>x\<bar> / 2 powi e\<bar> * 2 powi e"
    by (simp add: abs_mult)
  also have "\<dots> \<le> 1 / 2 * 2 powi e"
    unfolding m_def using round_half_even_error [of "\<bar>x\<bar> / 2 powi e"] p
    by (intro mult_right_mono) simp_all
  finally have err: "\<bar>to_float64 x - x\<bar> \<le> 2 powi e / 2" by simp
  show ?thesis
  proof (cases "floor_log2 \<bar>x\<bar> - 52 \<ge> - 1074")
    case True
    then have "e = floor_log2 \<bar>x\<bar> - 52" by (simp add: e_def)
    then have "(2::rat) powi e = 2 powi (floor_log2 \<bar>x\<bar>) / 2 powi 52"
      by (simp add: power_int_diff)
    also have "\<dots> \<le> \<bar>x\<bar> / 2 powi 52"
      using floor_log2_le [OF ax] by (simp add: divide_right_mono)
    finally have "(2::rat) powi e / 2 \<le> \<bar>x\<bar> / 2 ^ 53" by simp
    moreover have "(0::rat) \<le> 1 / 2 ^ 1075" by (rule divide_nonneg_nonneg) simp_all
    ultimately show ?thesis using err by linarith
  next
    case False
    then have "e = - 1074" by (simp add: e_def)
    then have "(2::rat) powi e / 2 = 1 / 2 ^ 1075"
      by (simp add: power_int_minus field_simps)
    moreover have "(0::rat) \<le> \<bar>x\<bar> / 2 ^ 53" by (rule divide_nonneg_nonneg) simp_all
    ultimately show ?thesis using err by linarith
  qed
qed

section \<open>The watchdog differences\<close>

lemma sum_differences:
  "xs \<noteq> [] \<Longrightarrow> sum_list (map (\<lambda>(a, b). b - a) (zip xs (tl xs))) = last xs - hd xs"
  for xs :: "int list"
proof (induction xs)
  case Nil
  then show ?case by simp
next
  case (Cons x xs)
  then show ?case by (cases xs) auto
qed

lemma differences_nth:
  "map (\<lambda>i. a ! Suc i - a ! i) [0..<length a - 1] = map (\<lambda>(x, y). y - x) (zip a (tl a))"
  by (rule nth_equalityI) (auto simp: nth_tl)

lemma consecutive_differences_sorted:
  "sorted ts \<Longrightarrow> consecutive_differences ts = map (\<lambda>(a, b). b - a) (zip ts (tl ts))"
  using differences_nth [of ts] by (simp add: consecutive_differences_def Let_def sorted_sort_id)

lemma wrap_Int64_small: "\<bar>x\<bar> < 2 ^ 63 \<Longrightarrow> wrap Int64 x = x"
  by (simp add: wrap_def)

lemma dropna_series_diff:
  "dropna (series_diff d xs) =
     map (\<lambda>(a, b). to_float64 (of_int (wrap d (b - a)))) (zip xs (tl xs))"
proof (cases xs)
  case Nil
  then show ?thesis by (simp add: dropna_def series_diff_def map_filter_simps)
next
  case (Cons x rest)
  have "List.map_filter (\<lambda>x. case x of NaN \<Rightarrow> None | Finite q \<Rightarrow> Some q)
          (map (\<lambda>(a, b). Finite (g a b)) ps) = map (\<lambda>(a, b). g a b) ps"
    for ps :: "(int \<times> int) list" and g
    by (induction ps) (auto simp: map_filter_simps)
  then show ?thesis using Cons by (simp add: dropna_def series_diff_def map_filter_simps)
qed

lemma fold_float_add_exact:
  "\<bar>a\<bar> + sum_list (map abs ds) < 2 ^ 53 \<Longrightarrow>
     fold (\<lambda>x acc. to_float64 (acc + x)) (map of_int ds) (of_int a) = of_int (a + sum_list ds)"
proof (induction ds arbitrary: a)
  case Nil
  then show ?case by simp
next
  case (Cons d ds)
  have z: "0 \<le> sum_list (map abs ds)" by (rule sum_list_nonneg) auto
  have b: "\<bar>a + d\<bar> < 2 ^ 53" using Cons.prems z by (simp; linarith?)
  have "to_float64 (of_int a + of_int d) = of_int (a + d)"
    using to_float64_of_int_abs [OF b] by simp
  moreover have "\<bar>a + d\<bar> + sum_list (map abs ds) < 2 ^ 53"
    using Cons.prems by (simp; linarith?)
  ultimately show ?case using Cons.IH [of "a + d"] by (simp add: add.assoc)
qed

lemma float_sum_exact:
  "sum_list (map abs ds) < 2 ^ 53 \<Longrightarrow> float_sum (map of_int ds) = of_int (sum_list ds)"
  using fold_float_add_exact [of 0 ds] by (simp add: float_sum_def)

lemma abs_le_sum_abs: "d \<in> set ds \<Longrightarrow> \<bar>d\<bar> \<le> sum_list (map abs ds)" for d :: int
proof (induction ds)
  case Nil
  then show ?case by simp
next
  case (Cons x xs)
  have "0 \<le> sum_list (map abs xs)" by (rule sum_list_nonneg) auto
  then show ?case using Cons by auto
qed

lemma total_variation_eq:
  "total_variation ts = sum_list (map abs (map (\<lambda>(a, b). b - a) (zip ts (tl ts))))"
  by (simp add: total_variation_def comp_def case_prod_unfold)

lemma differences_exact:
  assumes "total_variation ts < 2 ^ 53"
  shows "map (\<lambda>(a, b). to_float64 (of_int (wrap Int64 (b - a)))) (zip ts (tl ts)) =
         map of_int (map (\<lambda>(a, b). b - a) (zip ts (tl ts)))"
proof -
  have "to_float64 (of_int (wrap Int64 (b - a))) = of_int (b - a)"
    if "(a, b) \<in> set (zip ts (tl ts))" for a b
  proof -
    have "b - a \<in> set (map (\<lambda>(a, b). b - a) (zip ts (tl ts)))" using that by force
    then have "\<bar>b - a\<bar> \<le> total_variation ts"
      unfolding total_variation_eq by (rule abs_le_sum_abs)
    then have s: "\<bar>b - a\<bar> < 2 ^ 53" using assms by simp
    then have "wrap Int64 (b - a) = b - a" by (intro wrap_Int64_small) simp
    then show ?thesis using to_float64_of_int_abs [OF s] by simp
  qed
  then show ?thesis by auto
qed

lemma watchdog_interval_exact:
  assumes n: "2 \<le> length (wdt_times df)" "length (wdt_times df) \<le> 2 ^ 53"
    and c: "column_dtype (map time_ms df) = Int64"
    and v: "total_variation (wdt_times df) < 2 ^ 53"
  shows "watchdog_interval df =
     Returns (Some (Finite (np_round
       (to_float64 (of_int (last (wdt_times df) - hd (wdt_times df))
                    / of_nat (length (wdt_times df) - 1))) 2)))"
proof -
  let ?ts = "wdt_times df"
  let ?ds = "map (\<lambda>(a, b). b - a) (zip ?ts (tl ?ts))"
  have l: "length (filter (\<lambda>r. task r = ''WDT'') df) = length ?ts"
    by (simp add: wdt_times_def)
  have m: "map time_ms (filter (\<lambda>r. task r = ''WDT'') df) = ?ts"
    by (simp add: wdt_times_def)
  have ne: "?ts \<noteq> []" using n by auto
  have len: "length ?ds = length ?ts - 1" by simp
  have dne: "?ds \<noteq> []" using n by (cases ?ts; cases "tl ?ts") auto
  have i: "dropna (series_diff Int64 ?ts) = map of_int ?ds"
    using differences_exact [OF v] by (simp add: dropna_series_diff)
  have s: "float_sum (map of_int ?ds) = of_int (last ?ts - hd ?ts)"
    using float_sum_exact [of ?ds] v sum_differences [OF ne]
    by (simp add: total_variation_eq)
  have k: "to_float64 (of_nat (length ?ts - 1)) = of_nat (length ?ts - 1)"
    using n by (intro to_float64_of_nat) simp
  have "series_mean (map of_int ?ds) =
      Finite (to_float64 (of_int (last ?ts - hd ?ts) / of_nat (length ?ts - 1)))"
    using dne s k by (simp add: series_mean_def)
  then show ?thesis
    using n by (simp add: watchdog_interval_def l m c i Let_def round_float64_def)
qed

lemma sorted_differences_nonneg:
  "sorted ts \<Longrightarrow> (a, b) \<in> set (zip ts (tl ts)) \<Longrightarrow> a \<le> b" for ts :: "int list"
proof (induction ts)
  case Nil
  then show ?case by simp
next
  case (Cons x xs)
  then show ?case by (cases xs) auto
qed

lemma total_variation_sorted:
  assumes "sorted ts" "ts \<noteq> []" shows "total_variation ts = last ts - hd ts"
proof -
  have "map (\<lambda>(a, b). \<bar>b - a\<bar>) (zip ts (tl ts)) = map (\<lambda>(a, b). b - a) (zip ts (tl ts))"
    using sorted_differences_nonneg [OF assms(1)] by auto
  then have "total_variation ts = sum_list (map (\<lambda>(a, b). b - a) (zip ts (tl ts)))"
    unfolding total_variation_def by (rule arg_cong)
  then show ?thesis using sum_differences [OF assms(2)] by (simp only:)
qed

lemma column_dtype_Int64:
  "(\<forall>t \<in> set ts. - (2 ^ 63) \<le> t \<and> t < 2 ^ 63) \<Longrightarrow> column_dtype ts = Int64"
  by (simp add: column_dtype_def list_all_iff)

lemma get_list_build:
  "get_list (exec_map (build_task_execution_lists df)) t =
     (if t \<in> set (tasks_of df) then execs (reconcile t (task_rows df t)) else [])"
  "get_list (resp_map (build_task_execution_lists df)) t =
     (if t \<in> set (tasks_of df) then resps (reconcile t (task_rows df t)) else [])"
  "get_list (releases_map (build_task_execution_lists df)) t =
     (if t \<in> set (tasks_of df) then rels (reconcile t (task_rows df t)) else [])"
  by (simp_all add: build_eq get_list_map)

lemma keys_build:
  "map fst (exec_map (build_task_execution_lists df)) = tasks_of df"
  "map fst (resp_map (build_task_execution_lists df)) = tasks_of df"
  "map fst (releases_map (build_task_execution_lists df)) = tasks_of df"
  by (simp_all add: build_eq comp_def)

lemma card_matched: "card (snd ` set (first_fit cs u ss)) = length (first_fit cs u ss)"
  using distinct_card [OF first_fit_distinct [of cs u ss]] by simp

section \<open>The reconciler\<close>

text \<open>
  C7: pairing never produces more samples than there are events to pair. For every task
  timeline the executions are at most as many as the START timestamps and the responses at
  most as many as the RELEASE timestamps; the same holds for the lists that
  \<^verbatim>\<open>build_task_execution_lists\<close> stores for a task, against the number of START and
  RELEASE events the task has in the trace.
\<close>

theorem pairing_never_invents_samples:
  "length (execs (reconcile t dft)) \<le> length (times_of START dft)
   \<and> length (resps (reconcile t dft)) \<le> length (times_of RELEASE dft)
   \<and> length (get_list (exec_map (build_task_execution_lists df)) t) \<le> count_events START t df
   \<and> length (get_list (resp_map (build_task_execution_lists df)) t)
        \<le> count_events RELEASE t df"
proof -
  have e: "length (execs (reconcile t' d)) \<le> length (times_of START d)" for t' d
    by (simp add: execs_reconcile length_durations first_fit_length)
  have r: "length (resps (reconcile t' d)) \<le> length (times_of RELEASE d)" for t' d
    by (simp add: resps_reconcile length_durations first_fit_length)
  have "length (get_list (exec_map (build_task_execution_lists df)) t) \<le> count_events START t df"
    using e [of t "task_rows df t"] by (simp add: get_list_build times_of_task_rows_length)
  moreover have "length (get_list (resp_map (build_task_execution_lists df)) t)
        \<le> count_events RELEASE t df"
    using r [of t "task_rows df t"] by (simp add: get_list_build times_of_task_rows_length)
  ultimately show ?thesis using e r by simp
qed

theorem pairing_never_invents_samples_witness:
  "execs (reconcile ''T1'' [ev 10 START ''T1'', ev 40 COMPLETE ''T1'', ev 50 START ''T1'']) = [30]
   \<and> length (execs (reconcile ''T1'' [ev 10 START ''T1'', ev 40 COMPLETE ''T1'', ev 50 START ''T1'']))
       \<le> length (times_of START [ev 10 START ''T1'', ev 40 COMPLETE ''T1'', ev 50 START ''T1''])
   \<and> times_of START [ev 10 START ''T1'', ev 40 COMPLETE ''T1'', ev 50 START ''T1''] = [10, 50]"
proof -
  have "execs (reconcile ''T1'' [ev 10 START ''T1'', ev 40 COMPLETE ''T1'', ev 50 START ''T1'']) = [30]"
    by code_simp
  moreover have "times_of START [ev 10 START ''T1'', ev 40 COMPLETE ''T1'', ev 50 START ''T1''] = [10, 50]"
    by code_simp
  ultimately show ?thesis
    using pairing_never_invents_samples
      [of "''T1''" "[ev 10 START ''T1'', ev 40 COMPLETE ''T1'', ev 50 START ''T1'']" "[]"]
    by blast
qed

text \<open>
  C1: execution pairing is first-fit. On a time-sorted timeline the START timestamps are
  taken in ascending order; each takes the lowest-index COMPLETE timestamp that is not yet
  consumed and is at least the START, contributes the difference and consumes that COMPLETE;
  a START that finds none contributes nothing. The scan of the loop returns index \<open>i\<close>
  exactly when \<open>i\<close> is the least index of such a COMPLETE, and nothing exactly when
  there is none. \<^verbatim>\<open>build_task_execution_lists\<close> stores
  exactly this list for every task, computed on the task's rows sorted by time. The timeline
  START 10, COMPLETE 40, START 50, COMPLETE 45 gives the executions \<open>[30]\<close>.
\<close>

theorem first_fit_execution_pairing:
  "(sorted (map time_ms dft) \<longrightarrow> sorted (times_of START dft))
   \<and> execs (reconcile t dft) =
       durations (times_of COMPLETE dft)
         (first_fit (times_of COMPLETE dft) {} (times_of START dft))
   \<and> (t \<in> set (tasks_of df) \<longrightarrow>
        sorted (map time_ms (task_rows df t))
        \<and> map_of (exec_map (build_task_execution_lists df)) t
            = Some (execs (reconcile t (task_rows df t))))
   \<and> (next_index 0 completes s used = Some i \<longleftrightarrow>
        i < length completes \<and> s \<le> completes ! i \<and> i \<notin> used
        \<and> (\<forall>j<i. \<not> (s \<le> completes ! j \<and> j \<notin> used)))
   \<and> (next_index 0 completes s used = None \<longleftrightarrow>
        (\<forall>j<length completes. \<not> (s \<le> completes ! j \<and> j \<notin> used)))
   \<and> exec_map (build_task_execution_lists
        [ev 10 START ''T1'', ev 40 COMPLETE ''T1'', ev 50 START ''T1'', ev 45 COMPLETE ''T1''])
       = [(''T1'', [30])]"
proof -
  have 1: "sorted (map time_ms dft) \<longrightarrow> sorted (times_of START dft)"
    by (simp add: sorted_times_of)
  have 3: "t \<in> set (tasks_of df) \<longrightarrow>
        sorted (map time_ms (task_rows df t))
        \<and> map_of (exec_map (build_task_execution_lists df)) t
            = Some (execs (reconcile t (task_rows df t)))"
  proof
    assume t: "t \<in> set (tasks_of df)"
    have "map_of (map (\<lambda>t. (t, f t)) ts) k = (if k \<in> set ts then Some (f k) else None)"
      for f :: "string \<Rightarrow> int list" and ts k
      by (induction ts) auto
    then show "sorted (map time_ms (task_rows df t))
        \<and> map_of (exec_map (build_task_execution_lists df)) t
            = Some (execs (reconcile t (task_rows df t)))"
      using t by (simp add: build_eq sorted_task_rows)
  qed
  have 4: "exec_map (build_task_execution_lists
        [ev 10 START ''T1'', ev 40 COMPLETE ''T1'', ev 50 START ''T1'', ev 45 COMPLETE ''T1''])
       = [(''T1'', [30])]"
    by code_simp
  show ?thesis
    using 1 3 4 execs_reconcile [of t dft] next_index_Some_iff [of completes s used i]
      next_index_None_iff [of completes s used]
    by blast
qed

theorem first_fit_execution_pairing_witness:
  "sorted (map time_ms
      [ev 10 START ''T1'', ev 40 COMPLETE ''T1'', ev 45 COMPLETE ''T1'', ev 50 START ''T1''])
   \<and> sorted (times_of START
      [ev 10 START ''T1'', ev 40 COMPLETE ''T1'', ev 45 COMPLETE ''T1'', ev 50 START ''T1''])
   \<and> first_fit [40, 45] {} [10, 50] = [(10, 0)]
   \<and> execs (reconcile ''T1''
      [ev 10 START ''T1'', ev 40 COMPLETE ''T1'', ev 45 COMPLETE ''T1'', ev 50 START ''T1'']) = [30]
   \<and> ''T1'' \<in> set (tasks_of
      [ev 10 START ''T1'', ev 40 COMPLETE ''T1'', ev 50 START ''T1'', ev 45 COMPLETE ''T1''])
   \<and> task_rows
      [ev 10 START ''T1'', ev 40 COMPLETE ''T1'', ev 50 START ''T1'', ev 45 COMPLETE ''T1''] ''T1''
      = [ev 10 START ''T1'', ev 40 COMPLETE ''T1'', ev 45 COMPLETE ''T1'', ev 50 START ''T1'']
   \<and> map_of (exec_map (build_task_execution_lists
      [ev 10 START ''T1'', ev 40 COMPLETE ''T1'', ev 50 START ''T1'', ev 45 COMPLETE ''T1''])) ''T1''
      = Some [30]"
proof -
  let ?s = "[ev 10 START ''T1'', ev 40 COMPLETE ''T1'', ev 45 COMPLETE ''T1'', ev 50 START ''T1'']"
  let ?d = "[ev 10 START ''T1'', ev 40 COMPLETE ''T1'', ev 50 START ''T1'', ev 45 COMPLETE ''T1'']"
  note th = first_fit_execution_pairing [of ?s "''T1''" ?d "[40, 45]" 10 "{}" 0]
  have a: "sorted (map time_ms ?s)" by (simp add: ev_def)
  have b: "sorted (times_of START ?s)" using th a by blast
  have c: "first_fit [40, 45] {} [10, 50] = [(10, 0)]" by code_simp
  have d: "execs (reconcile ''T1'' ?s) = [30]" by code_simp
  have e: "''T1'' \<in> set (tasks_of ?d)" by code_simp
  have f: "task_rows ?d ''T1'' = ?s" by code_simp
  have g: "map_of (exec_map (build_task_execution_lists ?d)) ''T1'' = Some [30]"
    using th e d f by simp
  show ?thesis using a b c d e f g by blast
qed

text \<open>
  C2: response pairing has its own consumption set. The responses are the first-fit
  matching of the RELEASE timestamps against the COMPLETE list, started from the empty set:
  they depend on the COMPLETE and RELEASE timestamps only, whatever the START timestamps
  are. Within one pool no COMPLETE index is matched twice, and the set of consumed indices a
  loop ends with has as many elements as the loop produced samples. The same COMPLETE may
  serve both pools: in RELEASE 0, START 10, COMPLETE 50 the only COMPLETE (index 0) gives the
  execution 40 and the response 50. The timeline RELEASE 0, RELEASE 100, COMPLETE 50,
  COMPLETE 150 gives the responses \<open>[50, 50]\<close>.
\<close>

theorem response_pool_independent:
  "resps (reconcile t dft) =
     durations (times_of COMPLETE dft)
       (first_fit (times_of COMPLETE dft) {} (times_of RELEASE dft))
   \<and> distinct (map snd (first_fit (times_of COMPLETE dft) {} (times_of RELEASE dft)))
   \<and> distinct (map snd (first_fit (times_of COMPLETE dft) {} (times_of START dft)))
   \<and> fst (snd (pair_loop w completes xs)) = snd ` set (first_fit completes {} xs)
   \<and> card (fst (snd (pair_loop w completes xs))) = length (fst (pair_loop w completes xs))
   \<and> (times_of COMPLETE dft' = times_of COMPLETE dft \<and>
       times_of RELEASE dft' = times_of RELEASE dft \<longrightarrow>
         resps (reconcile t dft') = resps (reconcile t dft))
   \<and> resp_map (build_task_execution_lists
        [ev 0 RELEASE ''T1'', ev 100 RELEASE ''T1'', ev 50 COMPLETE ''T1'', ev 150 COMPLETE ''T1''])
       = [(''T1'', [50, 50])]
   \<and> first_fit [50] {} [10] = [(10, 0)] \<and> first_fit [50] {} [0] = [(0, 0)]
   \<and> execs (reconcile ''T1'' [ev 0 RELEASE ''T1'', ev 10 START ''T1'', ev 50 COMPLETE ''T1''])
       = [40]
   \<and> resps (reconcile ''T1'' [ev 0 RELEASE ''T1'', ev 10 START ''T1'', ev 50 COMPLETE ''T1''])
       = [50]"
proof -
  have 1: "resps (reconcile t dft) =
     durations (times_of COMPLETE dft)
       (first_fit (times_of COMPLETE dft) {} (times_of RELEASE dft))"
    by (rule resps_reconcile)
  have 4: "fst (snd (pair_loop w completes xs)) = snd ` set (first_fit completes {} xs)"
    by (simp add: pair_loop_first_fit)
  have 5: "card (fst (snd (pair_loop w completes xs))) = length (fst (pair_loop w completes xs))"
    by (simp add: pair_loop_first_fit card_matched length_durations)
  have 6: "times_of COMPLETE dft' = times_of COMPLETE dft \<and>
       times_of RELEASE dft' = times_of RELEASE dft \<longrightarrow>
         resps (reconcile t dft') = resps (reconcile t dft)"
    by (simp add: resps_reconcile)
  have 7: "resp_map (build_task_execution_lists
        [ev 0 RELEASE ''T1'', ev 100 RELEASE ''T1'', ev 50 COMPLETE ''T1'', ev 150 COMPLETE ''T1''])
       = [(''T1'', [50, 50])]"
    by code_simp
  have 8: "first_fit [50] {} [10] = [(10, 0)]" "first_fit [50] {} [0] = [(0, 0)]"
    by code_simp+
  have 9: "execs (reconcile ''T1'' [ev 0 RELEASE ''T1'', ev 10 START ''T1'', ev 50 COMPLETE ''T1''])
       = [40]"
    by code_simp
  have 10: "resps (reconcile ''T1'' [ev 0 RELEASE ''T1'', ev 10 START ''T1'', ev 50 COMPLETE ''T1''])
       = [50]"
    by code_simp
  show ?thesis
    using 1 4 5 6 7 8 9 10 first_fit_distinct by blast
qed

theorem response_pool_independent_witness:
  "times_of COMPLETE [ev 0 RELEASE ''T1'', ev 50 COMPLETE ''T1'', ev 60 START ''T1'']
     = times_of COMPLETE [ev 0 RELEASE ''T1'', ev 10 START ''T1'', ev 50 COMPLETE ''T1'']
   \<and> times_of RELEASE [ev 0 RELEASE ''T1'', ev 50 COMPLETE ''T1'', ev 60 START ''T1'']
     = times_of RELEASE [ev 0 RELEASE ''T1'', ev 10 START ''T1'', ev 50 COMPLETE ''T1'']
   \<and> resps (reconcile ''T1'' [ev 0 RELEASE ''T1'', ev 50 COMPLETE ''T1'', ev 60 START ''T1''])
     = resps (reconcile ''T1'' [ev 0 RELEASE ''T1'', ev 10 START ''T1'', ev 50 COMPLETE ''T1''])
   \<and> execs (reconcile ''T1'' [ev 0 RELEASE ''T1'', ev 50 COMPLETE ''T1'', ev 60 START ''T1''])
     = []
   \<and> resps (reconcile ''T1'' [ev 0 RELEASE ''T1'', ev 50 COMPLETE ''T1'', ev 60 START ''T1''])
     = [50]"
proof -
  let ?a = "[ev 0 RELEASE ''T1'', ev 50 COMPLETE ''T1'', ev 60 START ''T1'']"
  let ?b = "[ev 0 RELEASE ''T1'', ev 10 START ''T1'', ev 50 COMPLETE ''T1'']"
  have c: "times_of COMPLETE ?a = times_of COMPLETE ?b" by code_simp
  have r: "times_of RELEASE ?a = times_of RELEASE ?b" by code_simp
  have e: "resps (reconcile ''T1'' ?a) = resps (reconcile ''T1'' ?b)"
    using response_pool_independent [of "''T1''" ?b _ _ _ ?a] c r by blast
  have x: "execs (reconcile ''T1'' ?a) = []" by code_simp
  have y: "resps (reconcile ''T1'' ?a) = [50]" by code_simp
  show ?thesis using c r e x y by blast
qed

text \<open>
  C6: every duration in the executions and in the responses is at least 0, for a timeline
  and for the lists stored per task. The step that commits a matched pair appends the
  duration when it is at least 0; when it is negative it appends nothing, records a
  warning and still marks the COMPLETE consumed. It returns a state either way, so the loop
  goes on with the next timestamp.
\<close>

theorem durations_nonnegative:
  "(\<forall>d \<in> set (execs (reconcile t dft)). 0 \<le> d)
   \<and> (\<forall>d \<in> set (resps (reconcile t dft)). 0 \<le> d)
   \<and> (\<forall>d \<in> set (get_list (exec_map (build_task_execution_lists df)) t). 0 \<le> d)
   \<and> (\<forall>d \<in> set (get_list (resp_map (build_task_execution_lists df)) t). 0 \<le> d)
   \<and> (completes ! idx - s < 0 \<longrightarrow>
        commit_pair warn completes s idx (durs, used, warns)
          = (durs, insert idx used, warns @ [warn s (completes ! idx)]))
   \<and> (0 \<le> completes ! idx - s \<longrightarrow>
        commit_pair warn completes s idx (durs, used, warns)
          = (durs @ [completes ! idx - s], insert idx used, warns))"
proof -
  have e: "\<forall>d \<in> set (execs (reconcile t' d')). 0 \<le> d" for t' d'
    by (auto simp: execs_reconcile dest: durations_nonneg)
  have r: "\<forall>d \<in> set (resps (reconcile t' d')). 0 \<le> d" for t' d'
    by (auto simp: resps_reconcile dest: durations_nonneg)
  have be: "\<forall>d \<in> set (get_list (exec_map (build_task_execution_lists df)) t). 0 \<le> d"
    using e [of t "task_rows df t"] by (simp add: get_list_build)
  have br: "\<forall>d \<in> set (get_list (resp_map (build_task_execution_lists df)) t). 0 \<le> d"
    using r [of t "task_rows df t"] by (simp add: get_list_build)
  have c: "completes ! idx - s < 0 \<longrightarrow>
        commit_pair warn completes s idx (durs, used, warns)
          = (durs, insert idx used, warns @ [warn s (completes ! idx)])"
    by (simp add: commit_pair_def Let_def)
  have c': "0 \<le> completes ! idx - s \<longrightarrow>
        commit_pair warn completes s idx (durs, used, warns)
          = (durs @ [completes ! idx - s], insert idx used, warns)"
    by (simp add: commit_pair_def Let_def)
  show ?thesis using e r be br c c' by blast
qed

theorem durations_nonnegative_witness:
  "execs (reconcile ''T1'' [ev 10 START ''T1'', ev 40 COMPLETE ''T1'']) = [30]
   \<and> 30 \<in> set (execs (reconcile ''T1'' [ev 10 START ''T1'', ev 40 COMPLETE ''T1'']))
   \<and> (0::int) \<le> 30
   \<and> [5] ! 0 - 10 < (0::int)
   \<and> commit_pair (Negative_exec_time ''T1'') [5] 10 0 ([], {}, [])
       = ([], {0}, [Negative_exec_time ''T1'' 10 5])
   \<and> (0::int) \<le> [40] ! 0 - 10
   \<and> commit_pair (Negative_exec_time ''T1'') [40] 10 0 ([], {}, []) = ([30], {0}, [])"
proof -
  note th = durations_nonnegative
    [of "''T1''" "[ev 10 START ''T1'', ev 40 COMPLETE ''T1'']" "[]" "[5]" 0 10
      "Negative_exec_time ''T1''" "[]" "{}" "[]"]
  note th' = durations_nonnegative
    [of "''T1''" "[ev 10 START ''T1'', ev 40 COMPLETE ''T1'']" "[]" "[40]" 0 10
      "Negative_exec_time ''T1''" "[]" "{}" "[]"]
  have a: "execs (reconcile ''T1'' [ev 10 START ''T1'', ev 40 COMPLETE ''T1'']) = [30]"
    by code_simp
  have b: "30 \<in> set (execs (reconcile ''T1'' [ev 10 START ''T1'', ev 40 COMPLETE ''T1'']))"
    using a by simp
  have b': "(0::int) \<le> 30" using th b by blast
  have c: "[5] ! 0 - 10 < (0::int)" by simp
  have d: "commit_pair (Negative_exec_time ''T1'') [5] 10 0 ([], {}, [])
       = ([], {0}, [Negative_exec_time ''T1'' 10 5])"
    using th c by simp
  have e: "(0::int) \<le> [40] ! 0 - 10" by simp
  have f: "commit_pair (Negative_exec_time ''T1'') [40] 10 0 ([], {}, []) = ([30], {0}, [])"
    using th' e by simp
  show ?thesis using a b b' c d e f by blast
qed

text \<open>
  C9: the pseudo-tasks \<^verbatim>\<open>WDT\<close>, \<^verbatim>\<open>INFO\<close> and \<^verbatim>\<open>Supervisor\<close> are never keys of the
  three per-task maps and never rows of the summary of a trace; the keys are exactly the
  other task names of the trace.
\<close>

theorem infrastructure_tasks_excluded:
  "(\<forall>k \<in> set (map fst (exec_map (build_task_execution_lists df))).
      k \<noteq> ''WDT'' \<and> k \<noteq> ''INFO'' \<and> k \<noteq> ''Supervisor'')
   \<and> (\<forall>k \<in> set (map fst (resp_map (build_task_execution_lists df))).
      k \<noteq> ''WDT'' \<and> k \<noteq> ''INFO'' \<and> k \<noteq> ''Supervisor'')
   \<and> (\<forall>k \<in> set (map fst (releases_map (build_task_execution_lists df))).
      k \<noteq> ''WDT'' \<and> k \<noteq> ''INFO'' \<and> k \<noteq> ''Supervisor'')
   \<and> (analyze_trace df = Inr rows \<longrightarrow>
        (\<forall>row \<in> set rows.
           task_name row \<noteq> ''WDT'' \<and> task_name row \<noteq> ''INFO''
           \<and> task_name row \<noteq> ''Supervisor''))
   \<and> set (map fst (exec_map (build_task_execution_lists df)))
       = task ` set df - {''WDT'', ''INFO'', ''Supervisor''}"
proof -
  have k: "k \<in> set (tasks_of df) \<Longrightarrow> k \<noteq> ''WDT'' \<and> k \<noteq> ''INFO'' \<and> k \<noteq> ''Supervisor''" for k
    using tasks_of_not_infrastructure [of k df] by (auto simp: infrastructure_def)
  have a: "analyze_trace df = Inr rows \<longrightarrow>
        (\<forall>row \<in> set rows.
           task_name row \<noteq> ''WDT'' \<and> task_name row \<noteq> ''INFO''
           \<and> task_name row \<noteq> ''Supervisor'')"
  proof (intro impI ballI)
    fix row assume "analyze_trace df = Inr rows" "row \<in> set rows"
    then have "task_name row \<in> fst ` set (exec_map (build_task_execution_lists df))"
      using analyze_rows [of "exec_map (build_task_execution_lists df)" _ _ df rows row]
      by (simp add: analyze_trace_def Let_def)
    then have "task_name row \<in> set (tasks_of df)"
      using keys_build(1) [of df] by (metis set_map)
    then show "task_name row \<noteq> ''WDT'' \<and> task_name row \<noteq> ''INFO''
           \<and> task_name row \<noteq> ''Supervisor''"
      by (rule k)
  qed
  have s: "set (map fst (exec_map (build_task_execution_lists df)))
       = task ` set df - {''WDT'', ''INFO'', ''Supervisor''}"
    by (simp add: keys_build set_tasks_of infrastructure_def)
  show ?thesis using k a s by (simp add: keys_build)
qed

theorem infrastructure_tasks_excluded_witness:
  "analyze_trace [ev 0 WDT_PET ''WDT'', ev 1 RELEASE ''T1'', ev 2 INFO ''INFO'',
       ev 3 START ''Supervisor'', ev 4 MISS ''T1'']
     = Inr [\<lparr> task_name = ''T1'', avg_exec_time_ms = NaN, avg_response_ms = NaN,
              miss_ratio = 1, total_exec_time_ms = 0, release_count = 1 \<rparr>]
   \<and> map fst (exec_map (build_task_execution_lists
       [ev 0 WDT_PET ''WDT'', ev 1 RELEASE ''T1'', ev 2 INFO ''INFO'',
        ev 3 START ''Supervisor'', ev 4 MISS ''T1''])) = [''T1'']
   \<and> ''WDT'' \<notin> set (map fst (exec_map (build_task_execution_lists
       [ev 0 WDT_PET ''WDT'', ev 1 RELEASE ''T1'', ev 2 INFO ''INFO'',
        ev 3 START ''Supervisor'', ev 4 MISS ''T1''])))"
proof -
  let ?d = "[ev 0 WDT_PET ''WDT'', ev 1 RELEASE ''T1'', ev 2 INFO ''INFO'',
       ev 3 START ''Supervisor'', ev 4 MISS ''T1'']"
  have a: "analyze_trace ?d
     = Inr [\<lparr> task_name = ''T1'', avg_exec_time_ms = NaN, avg_response_ms = NaN,
              miss_ratio = 1, total_exec_time_ms = 0, release_count = 1 \<rparr>]"
    by code_simp
  have b: "map fst (exec_map (build_task_execution_lists ?d)) = [''T1'']"
    by code_simp
  have c: "''WDT'' \<notin> set (map fst (exec_map (build_task_execution_lists ?d)))"
    using infrastructure_tasks_excluded [of ?d] by blast
  show ?thesis using a b c by blast
qed

section \<open>The metrics aggregator\<close>


lemma analyze_trace_rows:
  assumes "analyze_trace df = Inr rows" "row \<in> set rows"
  shows "task_metrics (exec_map (build_task_execution_lists df))
           (resp_map (build_task_execution_lists df))
           (releases_map (build_task_execution_lists df)) df (task_name row) = Inr row"
    and "task_name row \<in> set (tasks_of df)"
proof -
  let ?b = "build_task_execution_lists df"
  have a: "analyze_from_lists (exec_map ?b) (resp_map ?b) (releases_map ?b) df = Inr rows"
    using assms(1) by (simp add: analyze_trace_def Let_def)
  show "task_metrics (exec_map ?b) (resp_map ?b) (releases_map ?b) df (task_name row) = Inr row"
    using analyze_rows [OF a assms(2)] by simp
  have "task_name row \<in> fst ` set (exec_map ?b)"
    using analyze_rows [OF a assms(2)] by simp
  then show "task_name row \<in> set (tasks_of df)"
    using keys_build(1) [of df] by (metis set_map)
qed

lemma releases_build_length:
  "t \<in> set (tasks_of df) \<Longrightarrow>
     length (get_list (releases_map (build_task_execution_lists df)) t) = count_events RELEASE t df"
  by (simp add: get_list_build rels_reconcile times_of_task_rows_length)



text \<open>
  C4: a task with at least one RELEASE event can have a miss ratio above 1, since the MISS
  events are counted on their own: one RELEASE and two MISS events give the ratio 2.
\<close>

theorem miss_ratio_above_one_counterexample:
  "analyze_trace [ev 0 RELEASE ''T1'', ev 10 MISS ''T1'', ev 20 MISS ''T1'']
     = Inr [\<lparr> task_name = ''T1'', avg_exec_time_ms = NaN, avg_response_ms = NaN,
              miss_ratio = 2, total_exec_time_ms = 0, release_count = 1 \<rparr>]
   \<and> count_events RELEASE ''T1'' [ev 0 RELEASE ''T1'', ev 10 MISS ''T1'', ev 20 MISS ''T1''] = 1
   \<and> \<not> miss_ratio \<lparr> task_name = ''T1'', avg_exec_time_ms = NaN, avg_response_ms = NaN,
              miss_ratio = 2, total_exec_time_ms = 0, release_count = 1 \<rparr> \<le> 1"
proof -
  have "analyze_trace [ev 0 RELEASE ''T1'', ev 10 MISS ''T1'', ev 20 MISS ''T1'']
     = Inr [\<lparr> task_name = ''T1'', avg_exec_time_ms = NaN, avg_response_ms = NaN,
              miss_ratio = 2, total_exec_time_ms = 0, release_count = 1 \<rparr>]"
    by code_simp
  moreover have "count_events RELEASE ''T1''
      [ev 0 RELEASE ''T1'', ev 10 MISS ''T1'', ev 20 MISS ''T1''] = 1"
    by code_simp
  ultimately show ?thesis by simp
qed

text \<open>
  C4, as the code has it: for every task with at least one RELEASE event the miss ratio is
  at least 0, and it is at most 1 whenever the task has no more MISS events than RELEASE
  events.
\<close>

theorem miss_ratio_bounds:
  assumes "analyze_trace df = Inr rows" "row \<in> set rows"
    and "1 \<le> count_events RELEASE (task_name row) df"
  shows "0 \<le> miss_ratio row
    \<and> (count_events MISS (task_name row) df \<le> count_events RELEASE (task_name row) df \<longrightarrow>
         miss_ratio row \<le> 1)"
proof -
  let ?b = "build_task_execution_lists df"
  let ?t = "task_name row"
  let ?m = "count_events MISS ?t df"
  let ?r = "count_events RELEASE ?t df"
  have t: "?t \<in> set (tasks_of df)" using analyze_trace_rows(2) [OF assms(1,2)] .
  have l: "length (get_list (releases_map ?b) ?t) = ?r" using t by (rule releases_build_length)
  have mx: "max ?r 1 = ?r" using assms(3) by simp
  from task_metrics_fields(3) [OF analyze_trace_rows(1) [OF assms(1,2)]]
  obtain q where q: "truediv (int ?m) (int ?r) = Inr q" "miss_ratio row = round_float q 3"
    unfolding l mx by blast
  have v: "q = to_float64 (of_int (int ?m) / of_int (int ?r))" using q(1) by (rule truediv_Inr)
  have "(0::rat) \<le> of_int (int ?m) / of_int (int ?r)" by simp
  then have q0: "0 \<le> q" unfolding v by (rule to_float64_nonneg)
  have lo: "0 \<le> miss_ratio row" unfolding q(2) using q0 by (rule round_float_nonneg)
  have hi: "miss_ratio row \<le> 1" if "?m \<le> ?r"
  proof -
    have "(of_int (int ?m) :: rat) / of_int (int ?r) \<le> 1"
      using that assms(3) by (simp add: field_simps)
    moreover have "(0::rat) \<le> of_int (int ?m) / of_int (int ?r)" by simp
    ultimately have "q \<le> 1" unfolding v using to_float64_unit by blast
    then show ?thesis unfolding q(2) using q0 round_float_unit by blast
  qed
  show ?thesis using lo hi by blast
qed

theorem miss_ratio_bounds_witness:
  "analyze_trace [ev 0 RELEASE ''T1'', ev 5 MISS ''T1'', ev 10 RELEASE ''T1'', ev 20 RELEASE ''T1'']
     = Inr [\<lparr> task_name = ''T1'', avg_exec_time_ms = NaN, avg_response_ms = NaN,
              miss_ratio = to_float64 (333 / 1000), total_exec_time_ms = 0,
              release_count = 3 \<rparr>]
   \<and> count_events RELEASE ''T1''
        [ev 0 RELEASE ''T1'', ev 5 MISS ''T1'', ev 10 RELEASE ''T1'', ev 20 RELEASE ''T1''] = 3
   \<and> count_events MISS ''T1''
        [ev 0 RELEASE ''T1'', ev 5 MISS ''T1'', ev 10 RELEASE ''T1'', ev 20 RELEASE ''T1''] = 1
   \<and> 0 \<le> to_float64 (333 / 1000) \<and> to_float64 (333 / 1000) \<le> 1"
proof -
  let ?d = "[ev 0 RELEASE ''T1'', ev 5 MISS ''T1'', ev 10 RELEASE ''T1'', ev 20 RELEASE ''T1'']"
  let ?r = "\<lparr> task_name = ''T1'', avg_exec_time_ms = NaN, avg_response_ms = NaN,
              miss_ratio = to_float64 (333 / 1000), total_exec_time_ms = 0,
              release_count = 3 \<rparr>"
  have a: "analyze_trace ?d = Inr [?r]" by code_simp
  have b: "count_events RELEASE ''T1'' ?d = 3" by code_simp
  have c: "count_events MISS ''T1'' ?d = 1" by code_simp
  have d: "0 \<le> to_float64 (333 / 1000) \<and> to_float64 (333 / 1000) \<le> 1"
    using miss_ratio_bounds [of ?d "[?r]" ?r] a b c by simp
  show ?thesis using a b c d by blast
qed

text \<open>
  C8: in a summary row, a task with no execution sample has the mean execution time
  \<^verbatim>\<open>nan\<close> (no data), which is not 0, and likewise the mean response time of a task with no
  response sample; the total execution time is the sum of the executions, rounded to 2
  decimals (an integer, so the sum itself), and is 0 when there is none.
\<close>

theorem empty_mean_undefined_total_zero:
  assumes "analyze_from_lists em rm relm df = Inr rows" "row \<in> set rows"
  shows "(get_list em (task_name row) = [] \<longrightarrow>
           avg_exec_time_ms row = NaN \<and> avg_exec_time_ms row \<noteq> Finite 0
           \<and> total_exec_time_ms row = 0)
    \<and> (get_list rm (task_name row) = [] \<longrightarrow>
           avg_response_ms row = NaN \<and> avg_response_ms row \<noteq> Finite 0)
    \<and> total_exec_time_ms row = round_int (sum_list (get_list em (task_name row))) 2
    \<and> total_exec_time_ms row = sum_list (get_list em (task_name row))"
proof -
  have m: "task_metrics em rm relm df (task_name row) = Inr row"
    using analyze_rows [OF assms] by simp
  have e: "mean_or_nan (get_list em (task_name row)) = Inr (avg_exec_time_ms row)"
    and r: "mean_or_nan (get_list rm (task_name row)) = Inr (avg_response_ms row)"
    and s: "total_exec_time_ms row = round_int (sum_list (get_list em (task_name row))) 2"
    using task_metrics_fields [OF m] by blast+
  have 1: "get_list em (task_name row) = [] \<longrightarrow>
           avg_exec_time_ms row = NaN \<and> avg_exec_time_ms row \<noteq> Finite 0
           \<and> total_exec_time_ms row = 0"
    using e s by (auto simp: mean_or_nan_def round_int_def)
  have 2: "get_list rm (task_name row) = [] \<longrightarrow>
           avg_response_ms row = NaN \<and> avg_response_ms row \<noteq> Finite 0"
    using r by (auto simp: mean_or_nan_def)
  have 3: "total_exec_time_ms row = sum_list (get_list em (task_name row))"
    using s by (simp add: round_int_def)
  show ?thesis using 1 2 3 s by blast
qed

theorem empty_mean_undefined_total_zero_witness:
  "analyze_from_lists [(''T1'', []), (''T2'', [30, 5])] [(''T1'', []), (''T2'', [])]
       [(''T1'', [0]), (''T2'', [7])] [ev 0 RELEASE ''T1'', ev 7 RELEASE ''T2'']
     = Inr [\<lparr> task_name = ''T1'', avg_exec_time_ms = NaN, avg_response_ms = NaN,
              miss_ratio = 0, total_exec_time_ms = 0, release_count = 1 \<rparr>,
            \<lparr> task_name = ''T2'', avg_exec_time_ms = Finite (35 / 2), avg_response_ms = NaN,
              miss_ratio = 0, total_exec_time_ms = 35, release_count = 1 \<rparr>]
   \<and> get_list [(''T1'', []), (''T2'', [30, 5])] ''T1'' = []
   \<and> get_list [(''T1'', []), (''T2'', [])] ''T1'' = []
   \<and> avg_exec_time_ms \<lparr> task_name = ''T1'', avg_exec_time_ms = NaN, avg_response_ms = NaN,
              miss_ratio = 0, total_exec_time_ms = 0, release_count = 1 \<rparr> = NaN
   \<and> total_exec_time_ms \<lparr> task_name = ''T1'', avg_exec_time_ms = NaN, avg_response_ms = NaN,
              miss_ratio = 0, total_exec_time_ms = 0, release_count = 1 \<rparr> = 0"
proof -
  let ?em = "[(''T1'', []), (''T2'', [30, 5])] :: list_map"
  let ?rm = "[(''T1'', []), (''T2'', [])] :: list_map"
  let ?rl = "[(''T1'', [0]), (''T2'', [7])] :: list_map"
  let ?d = "[ev 0 RELEASE ''T1'', ev 7 RELEASE ''T2'']"
  let ?r1 = "\<lparr> task_name = ''T1'', avg_exec_time_ms = NaN, avg_response_ms = NaN,
              miss_ratio = 0, total_exec_time_ms = 0, release_count = 1 \<rparr>"
  let ?r2 = "\<lparr> task_name = ''T2'', avg_exec_time_ms = Finite (35 / 2), avg_response_ms = NaN,
              miss_ratio = 0, total_exec_time_ms = 35, release_count = 1 \<rparr>"
  have a: "analyze_from_lists ?em ?rm ?rl ?d = Inr [?r1, ?r2]" by code_simp
  have b: "get_list ?em ''T1'' = []" by code_simp
  have c: "get_list ?rm ''T1'' = []" by code_simp
  have d: "avg_exec_time_ms ?r1 = NaN \<and> total_exec_time_ms ?r1 = 0"
    using empty_mean_undefined_total_zero [of ?em ?rm ?rl ?d "[?r1, ?r2]" ?r1] a b by simp
  show ?thesis using a b c d by blast
qed

section \<open>The watchdog interval estimator\<close>

lemma wdt_times_subset: "set (wdt_times df) \<subseteq> time_ms ` set df"
  by (auto simp: wdt_times_def)

text \<open>
  C5: the estimator does not return the mean of the consecutive differences of the
  ascending timestamps on every trace. It takes the differences in trace order, so the WDT
  timestamps 600, 100, 900, 1600 give 333.33 where the ascending differences 500, 300, 700
  have the mean 500. It also computes in binary64: the ascending timestamps 0,
  \<open>2 ^ 53 + 1\<close>, \<open>2 ^ 53 + 2\<close> give \<open>2 ^ 52\<close> where the mean is \<open>2 ^ 52 + 1\<close>.
\<close>

theorem watchdog_interval_mean_counterexample:
  "watchdog_interval [ev 600 WDT_PET ''WDT'', ev 100 WDT_PET ''WDT'', ev 900 WDT_PET ''WDT'',
       ev 1600 WDT_PET ''WDT'']
     = Returns (Some (Finite (5864003374185185 / 17592186044416)))
   \<and> mean_inter_arrival (wdt_times [ev 600 WDT_PET ''WDT'', ev 100 WDT_PET ''WDT'',
       ev 900 WDT_PET ''WDT'', ev 1600 WDT_PET ''WDT'']) = Some (Finite 500)
   \<and> sorted (wdt_times [ev 0 WDT_PET ''WDT'', ev 9007199254740993 WDT_PET ''WDT'',
       ev 9007199254740994 WDT_PET ''WDT''])
   \<and> watchdog_interval [ev 0 WDT_PET ''WDT'', ev 9007199254740993 WDT_PET ''WDT'',
       ev 9007199254740994 WDT_PET ''WDT'']
     = Returns (Some (Finite 4503599627370496))
   \<and> mean_inter_arrival (wdt_times [ev 0 WDT_PET ''WDT'', ev 9007199254740993 WDT_PET ''WDT'',
       ev 9007199254740994 WDT_PET ''WDT'']) = Some (Finite 4503599627370497)"
proof -
  have 1: "watchdog_interval [ev 600 WDT_PET ''WDT'', ev 100 WDT_PET ''WDT'',
       ev 900 WDT_PET ''WDT'', ev 1600 WDT_PET ''WDT'']
     = Returns (Some (Finite (5864003374185185 / 17592186044416)))"
    by code_simp
  have 2: "mean_inter_arrival (wdt_times [ev 600 WDT_PET ''WDT'', ev 100 WDT_PET ''WDT'',
       ev 900 WDT_PET ''WDT'', ev 1600 WDT_PET ''WDT'']) = Some (Finite 500)"
    by code_simp
  have 3: "sorted (wdt_times [ev 0 WDT_PET ''WDT'', ev 9007199254740993 WDT_PET ''WDT'',
       ev 9007199254740994 WDT_PET ''WDT''])"
    by code_simp
  have 4: "watchdog_interval [ev 0 WDT_PET ''WDT'', ev 9007199254740993 WDT_PET ''WDT'',
       ev 9007199254740994 WDT_PET ''WDT'']
     = Returns (Some (Finite 4503599627370496))"
    by code_simp
  have 5: "mean_inter_arrival (wdt_times [ev 0 WDT_PET ''WDT'',
       ev 9007199254740993 WDT_PET ''WDT'', ev 9007199254740994 WDT_PET ''WDT''])
     = Some (Finite 4503599627370497)"
    by code_simp
  show ?thesis using 1 2 3 4 5 by blast
qed

text \<open>
  C5, as the code has it: with fewer than two WDT timestamps the estimator returns
  \<^verbatim>\<open>None\<close>. Otherwise, when the WDT timestamps are in ascending order in the trace, the
  timestamps of the trace lie in \<open>[0, 2 ^ 53)\<close> and there are at most \<open>2 ^ 53\<close> WDT rows,
  it returns the mean of the consecutive differences of the ascending timestamps, rounded
  to 2 decimals. The timestamps 100, 600, 1150 give 525.0, a single timestamp gives
  \<^verbatim>\<open>None\<close>, and 0, 500, 1001, 1502 give 500.67.
\<close>

theorem watchdog_interval_mean:
  "(sorted (wdt_times df) \<and> (\<forall>r \<in> set df. 0 \<le> time_ms r \<and> time_ms r < 2 ^ 53)
      \<and> length (wdt_times df) \<le> 2 ^ 53 \<longrightarrow>
        watchdog_interval df = Returns (mean_inter_arrival (wdt_times df)))
   \<and> (length (wdt_times df) < 2 \<longrightarrow> watchdog_interval df = Returns None)
   \<and> watchdog_interval [ev 100 WDT_PET ''WDT'', ev 600 WDT_PET ''WDT'', ev 1150 WDT_PET ''WDT'']
       = Returns (Some (Finite 525))
   \<and> watchdog_interval [ev 100 WDT_PET ''WDT''] = Returns None
   \<and> watchdog_interval [ev 0 WDT_PET ''WDT'', ev 500 WDT_PET ''WDT'', ev 1001 WDT_PET ''WDT'',
       ev 1502 WDT_PET ''WDT'']
       = Returns (Some (Finite (8807879786857759 / 17592186044416)))"
proof -
  have l: "length (filter (\<lambda>r. task r = ''WDT'') df) = length (wdt_times df)"
    by (simp add: wdt_times_def)
  have 2: "length (wdt_times df) < 2 \<longrightarrow> watchdog_interval df = Returns None"
    by (simp add: watchdog_interval_def l)
  have 1: "sorted (wdt_times df) \<and> (\<forall>r \<in> set df. 0 \<le> time_ms r \<and> time_ms r < 2 ^ 53)
      \<and> length (wdt_times df) \<le> 2 ^ 53 \<longrightarrow>
        watchdog_interval df = Returns (mean_inter_arrival (wdt_times df))"
  proof (intro impI)
    assume a: "sorted (wdt_times df) \<and> (\<forall>r \<in> set df. 0 \<le> time_ms r \<and> time_ms r < 2 ^ 53)
      \<and> length (wdt_times df) \<le> 2 ^ 53"
    let ?ts = "wdt_times df"
    show "watchdog_interval df = Returns (mean_inter_arrival ?ts)"
    proof (cases "length ?ts < 2")
      case True
      then show ?thesis using 2 by (simp add: mean_inter_arrival_def)
    next
      case False
      then have n: "2 \<le> length ?ts" by simp
      have ne: "?ts \<noteq> []" using n by auto
      have r: "\<forall>t \<in> set ?ts. 0 \<le> t \<and> t < 2 ^ 53"
        using a wdt_times_subset [of df] by auto
      have c: "column_dtype (map time_ms df) = Int64"
      proof (rule column_dtype_Int64, rule ballI)
        fix t assume "t \<in> set (map time_ms df)"
        then have "0 \<le> t \<and> t < 2 ^ 53" using a by auto
        then show "- (2 ^ 63) \<le> t \<and> t < 2 ^ 63" by simp
      qed
      have "hd ?ts \<in> set ?ts" "last ?ts \<in> set ?ts" using ne by simp_all
      then have "0 \<le> hd ?ts" "last ?ts < 2 ^ 53" using r by blast+
      then have v: "total_variation ?ts < 2 ^ 53"
        using a ne by (simp add: total_variation_sorted)
      have d: "consecutive_differences ?ts = map (\<lambda>(a, b). b - a) (zip ?ts (tl ?ts))"
        using a by (simp add: consecutive_differences_sorted)
      have s: "sum_list (consecutive_differences ?ts) = last ?ts - hd ?ts"
        unfolding d using ne by (rule sum_differences)
      have k: "length (consecutive_differences ?ts) = length ?ts - 1"
        unfolding d by simp
      have "mean_inter_arrival ?ts =
          Some (Finite (np_round (to_float64 (of_int (last ?ts - hd ?ts)
                    / of_nat (length ?ts - 1))) 2))"
        using False by (simp add: mean_inter_arrival_def Let_def s k)
      then show ?thesis using watchdog_interval_exact [OF n _ c v] a by simp
    qed
  qed
  have 3: "watchdog_interval
      [ev 100 WDT_PET ''WDT'', ev 600 WDT_PET ''WDT'', ev 1150 WDT_PET ''WDT'']
       = Returns (Some (Finite 525))"
    by code_simp
  have 4: "watchdog_interval [ev 100 WDT_PET ''WDT''] = Returns None"
    by code_simp
  have 5: "watchdog_interval [ev 0 WDT_PET ''WDT'', ev 500 WDT_PET ''WDT'',
       ev 1001 WDT_PET ''WDT'', ev 1502 WDT_PET ''WDT'']
       = Returns (Some (Finite (8807879786857759 / 17592186044416)))"
    by code_simp
  show ?thesis using 1 2 3 4 5 by blast
qed

theorem watchdog_interval_mean_witness:
  "sorted (wdt_times [ev 0 WDT_PET ''WDT'', ev 3 START ''T1'', ev 700 WDT_PET ''WDT'',
       ev 1000 WDT_PET ''WDT'', ev 2000 WDT_PET ''WDT''])
   \<and> wdt_times [ev 0 WDT_PET ''WDT'', ev 3 START ''T1'', ev 700 WDT_PET ''WDT'',
       ev 1000 WDT_PET ''WDT'', ev 2000 WDT_PET ''WDT''] = [0, 700, 1000, 2000]
   \<and> consecutive_differences [0, 700, 1000, 2000] = [700, 300, 1000]
   \<and> mean_inter_arrival [0, 700, 1000, 2000]
       = Some (Finite (5864091335115407 / 8796093022208))
   \<and> watchdog_interval [ev 0 WDT_PET ''WDT'', ev 3 START ''T1'', ev 700 WDT_PET ''WDT'',
       ev 1000 WDT_PET ''WDT'', ev 2000 WDT_PET ''WDT'']
       = Returns (Some (Finite (5864091335115407 / 8796093022208)))"
proof -
  let ?d = "[ev 0 WDT_PET ''WDT'', ev 3 START ''T1'', ev 700 WDT_PET ''WDT'',
       ev 1000 WDT_PET ''WDT'', ev 2000 WDT_PET ''WDT'']"
  have t: "wdt_times ?d = [0, 700, 1000, 2000]" by code_simp
  have a: "sorted (wdt_times ?d)" unfolding t by simp
  have r: "\<forall>r \<in> set ?d. 0 \<le> time_ms r \<and> time_ms r < 2 ^ 53" by (simp add: ev_def)
  have n: "length (wdt_times ?d) \<le> 2 ^ 53" unfolding t by simp
  have b: "consecutive_differences [0, 700, 1000, 2000] = [700, 300, 1000]" by code_simp
  have c: "mean_inter_arrival [0, 700, 1000, 2000]
       = Some (Finite (5864091335115407 / 8796093022208))"
    by code_simp
  have d: "watchdog_interval ?d = Returns (Some (Finite (5864091335115407 / 8796093022208)))"
    using watchdog_interval_mean [of ?d] a r n c t by simp
  show ?thesis using a t b c d by blast
qed

text \<open>
  C10: the interval is not \<open>(last - first) / (n - 1)\<close> rounded to 2 decimals for every
  list of timestamps. The differences are subtracted in the 64-bit type of the column and
  then held and added in binary64: the timestamps 0, \<open>2 ^ 53 + 1\<close>, \<open>2 ^ 53 + 2\<close> give
  \<open>2 ^ 52\<close> where the formula gives \<open>2 ^ 52 + 1\<close>, and on a \<^verbatim>\<open>uint64\<close> column the
  timestamps \<open>2 ^ 63 + 500\<close>, \<open>2 ^ 63\<close> give \<open>2 ^ 64\<close> where the formula gives -500.
\<close>

theorem watchdog_interval_telescopes_counterexample:
  "length (wdt_times [ev 0 WDT_PET ''WDT'', ev 9007199254740993 WDT_PET ''WDT'',
       ev 9007199254740994 WDT_PET ''WDT'']) = 3
   \<and> watchdog_interval [ev 0 WDT_PET ''WDT'', ev 9007199254740993 WDT_PET ''WDT'',
       ev 9007199254740994 WDT_PET ''WDT'']
     = Returns (Some (Finite 4503599627370496))
   \<and> np_round (to_float64 (of_int (9007199254740994 - 0) / of_nat (3 - 1))) 2
     = 4503599627370497
   \<and> length (wdt_times [ev 9223372036854776308 WDT_PET ''WDT'',
       ev 9223372036854775808 WDT_PET ''WDT'']) = 2
   \<and> watchdog_interval [ev 9223372036854776308 WDT_PET ''WDT'',
       ev 9223372036854775808 WDT_PET ''WDT'']
     = Returns (Some (Finite 18446744073709551616))
   \<and> np_round (to_float64 (of_int (9223372036854775808 - 9223372036854776308)
       / of_nat (2 - 1))) 2 = - 500"
proof -
  have 1: "length (wdt_times [ev 0 WDT_PET ''WDT'', ev 9007199254740993 WDT_PET ''WDT'',
       ev 9007199254740994 WDT_PET ''WDT'']) = 3"
    by code_simp
  have 2: "watchdog_interval [ev 0 WDT_PET ''WDT'', ev 9007199254740993 WDT_PET ''WDT'',
       ev 9007199254740994 WDT_PET ''WDT'']
     = Returns (Some (Finite 4503599627370496))"
    by code_simp
  have 3: "np_round (to_float64 (of_int (9007199254740994 - 0) / of_nat (3 - 1))) 2
     = 4503599627370497"
    by code_simp
  have 4: "length (wdt_times [ev 9223372036854776308 WDT_PET ''WDT'',
       ev 9223372036854775808 WDT_PET ''WDT'']) = 2"
    by code_simp
  have 5: "watchdog_interval [ev 9223372036854776308 WDT_PET ''WDT'',
       ev 9223372036854775808 WDT_PET ''WDT'']
     = Returns (Some (Finite 18446744073709551616))"
    by code_simp
  have 6: "np_round (to_float64 (of_int (9223372036854775808 - 9223372036854776308)
       / of_nat (2 - 1))) 2 = - 500"
    by code_simp
  show ?thesis using 1 2 3 4 5 6 by blast
qed

text \<open>
  C10, as the code has it: for \<open>n \<ge> 2\<close> WDT timestamps (at most \<open>2 ^ 53\<close> of them), in
  any order, on a trace whose timestamps lie in \<open>[- 2 ^ 63, 2 ^ 63)\<close> and whose consecutive
  WDT timestamps differ by less than \<open>2 ^ 53\<close> in total (the sum of the absolute
  differences), the interval is the last timestamp minus the first, divided by \<open>n - 1\<close>
  and rounded to 2 decimals, whatever the timestamps in between are.
\<close>

theorem watchdog_interval_telescopes:
  assumes "2 \<le> length (wdt_times df)" "length (wdt_times df) \<le> 2 ^ 53"
    and "\<forall>r \<in> set df. - (2 ^ 63) \<le> time_ms r \<and> time_ms r < 2 ^ 63"
    and "total_variation (wdt_times df) < 2 ^ 53"
  shows "watchdog_interval df =
     Returns (Some (Finite (np_round
       (to_float64 (of_int (last (wdt_times df) - hd (wdt_times df))
                    / of_nat (length (wdt_times df) - 1))) 2)))"
proof -
  have "column_dtype (map time_ms df) = Int64"
    using assms(3) by (intro column_dtype_Int64) auto
  then show ?thesis using assms(1,2,4) by (intro watchdog_interval_exact)
qed

theorem watchdog_interval_telescopes_witness:
  "wdt_times [ev 600 WDT_PET ''WDT'', ev 100 WDT_PET ''WDT'', ev 5 RELEASE ''T1'',
       ev 900 WDT_PET ''WDT'', ev 1600 WDT_PET ''WDT''] = [600, 100, 900, 1600]
   \<and> total_variation [600, 100, 900, 1600] = 2000
   \<and> np_round (to_float64 (of_int (1600 - 600) / of_nat (4 - 1))) 2
       = 5864003374185185 / 17592186044416
   \<and> watchdog_interval [ev 600 WDT_PET ''WDT'', ev 100 WDT_PET ''WDT'', ev 5 RELEASE ''T1'',
       ev 900 WDT_PET ''WDT'', ev 1600 WDT_PET ''WDT'']
       = Returns (Some (Finite (5864003374185185 / 17592186044416)))"
proof -
  let ?d = "[ev 600 WDT_PET ''WDT'', ev 100 WDT_PET ''WDT'', ev 5 RELEASE ''T1'',
       ev 900 WDT_PET ''WDT'', ev 1600 WDT_PET ''WDT'']"
  have t: "wdt_times ?d = [600, 100, 900, 1600]" by code_simp
  have v: "total_variation [600, 100, 900, 1600] = 2000" by code_simp
  have e: "np_round (to_float64 (of_int (1600 - 600) / of_nat (4 - 1))) 2
       = 5864003374185185 / 17592186044416"
    by code_simp
  have n: "2 \<le> length (wdt_times ?d)" "length (wdt_times ?d) \<le> 2 ^ 53"
    unfolding t by simp_all
  have r: "\<forall>r \<in> set ?d. - (2 ^ 63) \<le> time_ms r \<and> time_ms r < 2 ^ 63"
    by (simp add: ev_def)
  have w: "total_variation (wdt_times ?d) < 2 ^ 53" unfolding t v by simp
  have f: "watchdog_interval ?d = Returns (Some (Finite (5864003374185185 / 17592186044416)))"
    using watchdog_interval_telescopes [OF n r w] unfolding t using e by simp
  show ?thesis using t v e f by blast
qed

end
